theory Spec2Isabelle
  imports Complex_Main "HOL-Library.AList" "HOL-Library.Word"
begin

section \<open>JavaScript strings\<close>

text \<open>
  Strings are lists of characters. The string methods the sources call are modelled on
  ASCII text: \<^verbatim>\<open>toLowerCase\<close> maps the letters A to Z and leaves every other character as
  it is.
\<close>

definition char_toLowerCase :: "char \<Rightarrow> char" where
  "char_toLowerCase c =
     (case map_of (zip ''ABCDEFGHIJKLMNOPQRSTUVWXYZ'' ''abcdefghijklmnopqrstuvwxyz'') c of
        Some l \<Rightarrow> l
      | None \<Rightarrow> c)"

definition toLowerCase :: "string \<Rightarrow> string" where
  "toLowerCase s = map char_toLowerCase s"

definition startsWith :: "string \<Rightarrow> string \<Rightarrow> bool" where
  "startsWith s p = (take (length p) s = p)"

definition endsWith :: "string \<Rightarrow> string \<Rightarrow> bool" where
  "endsWith s p = (length p \<le> length s \<and> drop (length s - length p) s = p)"

text \<open>\<^verbatim>\<open>s.includes(p)\<close>: some position of \<open>s\<close> starts an occurrence of \<open>p\<close>.\<close>

fun str_includes :: "string \<Rightarrow> string \<Rightarrow> bool" where
  "str_includes [] p = (p = [])"
| "str_includes (c # cs) p = (startsWith (c # cs) p \<or> str_includes cs p)"

text \<open>Decimal notation of a number, as \<^verbatim>\<open>String(n)\<close> and template literals print it.\<close>

definition digit_char :: "nat \<Rightarrow> char" where
  "digit_char n = ''0123456789'' ! n"

function string_of_nat :: "nat \<Rightarrow> string" where
  "string_of_nat n =
     (if n < 10 then [digit_char n] else string_of_nat (n div 10) @ [digit_char (n mod 10)])"
  by pat_completeness auto
termination
  by (relation "measure (\<lambda>n. n)") auto

declare string_of_nat.simps [simp del]

definition string_of_int :: "int \<Rightarrow> string" where
  "string_of_int i = (if i < 0 then CHR ''-'' # string_of_nat (nat (- i)) else string_of_nat (nat i))"

section \<open>Types of the export tool\<close>

datatype MediaType = Image | Video

record GpsCoordinates =
  latitude :: real
  longitude :: real

text \<open>\<^verbatim>\<open>SnapchatMemory\<close>; the capture date is the \<^verbatim>\<open>Date\<close>'s epoch milliseconds.\<close>

record SnapchatMemory =
  date :: int
  mediaType :: MediaType
  location :: "GpsCoordinates option"
  downloadUrl :: string
  mediaDownloadUrl :: "string option"
  mediaId :: string

text \<open>
  Values that the code throws and catches. \<open>DownloadError url statusCode message\<close> is the
  class of that name with its constructor's arguments, \<open>OtherError message\<close> any other
  instance of \<^verbatim>\<open>Error\<close> with its message, and \<open>NotAnError\<close> a thrown value that is no
  instance of \<^verbatim>\<open>Error\<close>.
\<close>

datatype thrown =
    DownloadError string int string
  | OtherError string
  | NotAnError

text \<open>The \<^verbatim>\<open>message\<close> property; the constructor of \<^verbatim>\<open>DownloadError\<close> builds its own.\<close>

fun error_message :: "thrown \<Rightarrow> string option" where
  "error_message (DownloadError url statusCode message) =
     Some (''Failed to download '' @ url @ '': '' @ message
           @ '' (status: '' @ string_of_int statusCode @ '')'')"
| "error_message (OtherError message) = Some message"
| "error_message NotAnError = None"

section \<open>JavaScript numbers\<close>

text \<open>
  The delays of the backoff policy are JavaScript numbers, that is IEEE 754 binary64
  values: a finite value (a real that a double represents; the sign of zero is not
  kept, no operation below depends on it), one of the two infinities, or \<^verbatim>\<open>NaN\<close>.
\<close>

datatype number = Finite real | PosInfinity | NegInfinity | NaN

text \<open>
  Rounding to nearest, ties to even. A double has 53 significant bits and a least
  exponent of \<open>- 1022\<close>: the spacing of the doubles around \<open>x\<close> is \<open>2\<close> to the power of the
  exponent of \<open>x\<close> minus 52, and it never falls below \<open>2\<close> to the power \<open>- 1074\<close> (subnormal
  numbers). A result that rounds to \<open>2 ^ 1024\<close> or beyond overflows to an infinity.
\<close>

definition round_half_even :: "real \<Rightarrow> int" where
  "round_half_even y =
     (let n = \<lfloor>y\<rfloor>; f = y - of_int n in
      if f < 1 / 2 then n
      else if 1 / 2 < f then n + 1
      else if even n then n else n + 1)"

definition double_exponent :: "real \<Rightarrow> int" where
  "double_exponent x = max \<lfloor>log 2 \<bar>x\<bar>\<rfloor> (- 1022)"

definition double_ulp :: "real \<Rightarrow> real" where
  "double_ulp x = 2 powr of_int (double_exponent x - 52)"

definition round_to_double :: "real \<Rightarrow> real" where
  "round_to_double x =
     (if x = 0 then 0 else of_int (round_half_even (x / double_ulp x)) * double_ulp x)"

definition to_number :: "real \<Rightarrow> number" where
  "to_number x =
     (let y = round_to_double x in
      if 2 ^ 1024 \<le> y then PosInfinity
      else if y \<le> - (2 ^ 1024) then NegInfinity
      else Finite y)"

text \<open>
  The operators \<^verbatim>\<open>*\<close>, \<^verbatim>\<open>+\<close>, \<^verbatim>\<open>-\<close> and \<^verbatim>\<open>>\<close> on numbers: the exact result of two finite
  operands is rounded; zero times an infinity and the sum of the two opposite infinities
  are \<^verbatim>\<open>NaN\<close>; \<^verbatim>\<open>NaN\<close> absorbs every operation and every comparison with it is false.
\<close>

fun number_times :: "number \<Rightarrow> number \<Rightarrow> number" where
  "number_times (Finite x) (Finite y) = to_number (x * y)"
| "number_times (Finite x) PosInfinity =
     (if x = 0 then NaN else if 0 < x then PosInfinity else NegInfinity)"
| "number_times (Finite x) NegInfinity =
     (if x = 0 then NaN else if 0 < x then NegInfinity else PosInfinity)"
| "number_times PosInfinity (Finite y) =
     (if y = 0 then NaN else if 0 < y then PosInfinity else NegInfinity)"
| "number_times NegInfinity (Finite y) =
     (if y = 0 then NaN else if 0 < y then NegInfinity else PosInfinity)"
| "number_times PosInfinity PosInfinity = PosInfinity"
| "number_times PosInfinity NegInfinity = NegInfinity"
| "number_times NegInfinity PosInfinity = NegInfinity"
| "number_times NegInfinity NegInfinity = PosInfinity"
| "number_times NaN b = NaN"
| "number_times a NaN = NaN"

fun number_plus :: "number \<Rightarrow> number \<Rightarrow> number" where
  "number_plus (Finite x) (Finite y) = to_number (x + y)"
| "number_plus (Finite x) PosInfinity = PosInfinity"
| "number_plus (Finite x) NegInfinity = NegInfinity"
| "number_plus PosInfinity (Finite y) = PosInfinity"
| "number_plus NegInfinity (Finite y) = NegInfinity"
| "number_plus PosInfinity PosInfinity = PosInfinity"
| "number_plus PosInfinity NegInfinity = NaN"
| "number_plus NegInfinity PosInfinity = NaN"
| "number_plus NegInfinity NegInfinity = NegInfinity"
| "number_plus NaN b = NaN"
| "number_plus a NaN = NaN"

fun number_negate :: "number \<Rightarrow> number" where
  "number_negate (Finite x) = Finite (- x)"
| "number_negate PosInfinity = NegInfinity"
| "number_negate NegInfinity = PosInfinity"
| "number_negate NaN = NaN"

definition number_minus :: "number \<Rightarrow> number \<Rightarrow> number" where
  "number_minus a b = number_plus a (number_negate b)"

fun number_greater :: "number \<Rightarrow> number \<Rightarrow> bool" where
  "number_greater (Finite x) (Finite y) = (y < x)"
| "number_greater PosInfinity (Finite y) = True"
| "number_greater PosInfinity NegInfinity = True"
| "number_greater (Finite x) NegInfinity = True"
| "number_greater a b = False"

text \<open>
  \<^verbatim>\<open>Math.min\<close> of two arguments returns \<^verbatim>\<open>NaN\<close> as soon as one of them is \<^verbatim>\<open>NaN\<close>, and
  \<^verbatim>\<open>Math.pow(2, n)\<close> at a natural number \<open>n\<close> is the double nearest to the power, an
  infinity from \<open>n = 1024\<close> on.
\<close>

fun Math_min :: "number \<Rightarrow> number \<Rightarrow> number" where
  "Math_min NaN b = NaN"
| "Math_min a NaN = NaN"
| "Math_min a b = (if number_greater a b then b else a)"

definition Math_pow2 :: "nat \<Rightarrow> number" where
  "Math_pow2 n = to_number (2 ^ n)"

section \<open>Backoff policy\<close>

text \<open>
  The constants of the downloader. HTTP status codes and attempt counters are integers.
\<close>

definition DEFAULT_MAX_RETRIES :: int where
  "DEFAULT_MAX_RETRIES = 3"

definition BACKOFF_BASE_DELAY_MS :: number where
  "BACKOFF_BASE_DELAY_MS = Finite 1000"

definition BACKOFF_MAX_DELAY_MS :: number where
  "BACKOFF_MAX_DELAY_MS = Finite 30000"

definition RETRYABLE_STATUS_CODES :: "int set" where
  "RETRYABLE_STATUS_CODES = {408, 429, 500, 502, 503, 504}"

text \<open>
  \<^verbatim>\<open>calculateBackoffDelay(attempt, baseDelay)\<close>. The first argument is the value that
  \<^verbatim>\<open>Math.random()\<close> returns in this call, a double of the half-open interval from 0 to 1.
  The source computes \<^verbatim>\<open>exponentialDelay * 0.25 * (Math.random() * 2 - 1)\<close> from left to
  right, and every operation rounds.
\<close>

definition calculateBackoffDelay :: "real \<Rightarrow> nat \<Rightarrow> number \<Rightarrow> number" where
  "calculateBackoffDelay rnd attempt baseDelay =
     (let exponentialDelay = number_times baseDelay (Math_pow2 attempt);
          jitter = number_times (number_times exponentialDelay (Finite 0.25))
                     (number_minus (number_times (Finite rnd) (Finite 2)) (Finite 1))
      in Math_min (number_plus exponentialDelay jitter) BACKOFF_MAX_DELAY_MS)"

text \<open>
  \<^verbatim>\<open>isRetryableError(error)\<close>. A \<^verbatim>\<open>DownloadError\<close> is classified by its status code alone
  (the function returns before it looks at the message); any other \<^verbatim>\<open>Error\<close> by the
  tokens its lower-cased message contains.
\<close>

fun isRetryableError :: "thrown \<Rightarrow> bool" where
  "isRetryableError (DownloadError url statusCode msg) = (statusCode \<in> RETRYABLE_STATUS_CODES)"
| "isRetryableError (OtherError msg) =
     (let message = toLowerCase msg in
        str_includes message ''network'' \<or>
        str_includes message ''timeout'' \<or>
        str_includes message ''econnreset'' \<or>
        str_includes message ''econnrefused'' \<or>
        str_includes message ''socket'')"
| "isRetryableError NotAnError = False"

section \<open>Expiry detector\<close>

definition URL_EXPIRATION_HOURS :: real where
  "URL_EXPIRATION_HOURS = 6"

text \<open>
  \<^verbatim>\<open>parseInt(s, 10)\<close>: leading white space is skipped, one sign is read, then the longest
  run of decimal digits; \<open>None\<close> stands for \<^verbatim>\<open>NaN\<close> (no digit was found). The value is kept
  as an exact integer.
\<close>

definition is_whitespace :: "char \<Rightarrow> bool" where
  "is_whitespace c \<longleftrightarrow> c \<in> set [CHR '' '', CHR 0x09, CHR 0x0A, CHR 0x0B, CHR 0x0C, CHR 0x0D]"












section \<open>Bundle extractor\<close>

type_synonym Buffer = "8 word list"

datatype BaseMediaType = jpg | mp4

record ExtractedMediaContents =
  baseMedia :: Buffer
  baseMediaType :: BaseMediaType
  overlay :: "Buffer option"

text \<open>An entry of the archive as adm-zip presents it.\<close>

record ZipEntry =
  entryName :: string
  isDirectory :: bool
  getData :: Buffer

text \<open>\<^verbatim>\<open>isZipBuffer\<close>: the buffer starts with the bytes of PK.\<close>

definition isZipBuffer :: "Buffer \<Rightarrow> bool" where
  "isZipBuffer buffer \<longleftrightarrow> length buffer \<ge> 2 \<and> buffer ! 0 = 0x50 \<and> buffer ! 1 = 0x4b"

text \<open>
  The three variables of \<^verbatim>\<open>extractMediaFromZip\<close>. A \<^verbatim>\<open>Buffer\<close> is an object, so the tests
  \<^verbatim>\<open>!baseMedia\<close> and \<^verbatim>\<open>!overlay\<close> ask whether the variable is still \<^verbatim>\<open>null\<close>, whatever the
  buffer's length.
\<close>

record extract_vars =
  var_baseMedia :: "Buffer option"
  var_baseMediaType :: BaseMediaType
  var_overlay :: "Buffer option"

text \<open>The body of the first loop, for one entry.\<close>

definition first_pass_entry :: "ZipEntry \<Rightarrow> extract_vars \<Rightarrow> extract_vars" where
  "first_pass_entry entry vars =
     (let name = toLowerCase (entryName entry) in
      if isDirectory entry then vars
      else if endsWith name ''.png'' \<and> (str_includes name ''overlay'' \<or> name = ''overlay.png'')
        then vars\<lparr>var_overlay := Some (getData entry)\<rparr>
      else if endsWith name ''.jpg'' \<or> endsWith name ''.jpeg''
        then vars\<lparr>var_baseMedia := Some (getData entry), var_baseMediaType := jpg\<rparr>
      else if endsWith name ''.mp4''
        then vars\<lparr>var_baseMedia := Some (getData entry), var_baseMediaType := mp4\<rparr>
      else if endsWith name ''.png'' \<and> var_overlay vars = None
        then vars\<lparr>var_overlay := Some (getData entry)\<rparr>
      else vars)"

fun first_pass :: "ZipEntry list \<Rightarrow> extract_vars \<Rightarrow> extract_vars" where
  "first_pass [] vars = vars"
| "first_pass (entry # zentries) vars = first_pass zentries (first_pass_entry entry vars)"

text \<open>The second loop, which stops at the first media file.\<close>

fun second_pass :: "ZipEntry list \<Rightarrow> extract_vars \<Rightarrow> extract_vars" where
  "second_pass [] vars = vars"
| "second_pass (entry # zentries) vars =
     (if isDirectory entry then second_pass zentries vars
      else
        (let name = toLowerCase (entryName entry) in
         if endsWith name ''.jpg'' \<or> endsWith name ''.jpeg'' \<or> endsWith name ''.png''
           then vars\<lparr>var_baseMedia := Some (getData entry), var_baseMediaType := jpg\<rparr>
         else if endsWith name ''.mp4'' \<or> endsWith name ''.mov''
           then vars\<lparr>var_baseMedia := Some (getData entry), var_baseMediaType := mp4\<rparr>
         else second_pass zentries vars))"

text \<open>
  The two loops of \<^verbatim>\<open>extractMediaFromZip\<close> over the entries, from the initial values of
  the variables; the second loop runs only while no base media has been found.
\<close>

definition locate_media :: "ZipEntry list \<Rightarrow> MediaType \<Rightarrow> extract_vars" where
  "locate_media zentries mType =
     (let vars = \<lparr>var_baseMedia = None,
                  var_baseMediaType = (if mType = Image then jpg else mp4),
                  var_overlay = None\<rparr>;
          vars = first_pass zentries vars
      in if var_baseMedia vars = None then second_pass zentries vars else vars)"

text \<open>
  \<^verbatim>\<open>extractMediaFromZip(zipBuffer, mediaType)\<close>. The parameter \<open>AdmZip\<close> is the library that
  reads the archive: the list of its entries, or the error it throws.
\<close>

definition extractMediaFromZip ::
  "(Buffer \<Rightarrow> thrown + ZipEntry list) \<Rightarrow> Buffer \<Rightarrow> MediaType
     \<Rightarrow> thrown + ExtractedMediaContents" where
  "extractMediaFromZip AdmZip zipBuffer mType =
     (case AdmZip zipBuffer of
        Inl err \<Rightarrow> Inl err
      | Inr zentries \<Rightarrow>
          (let vars = locate_media zentries mType
           in case var_baseMedia vars of
                None \<Rightarrow> Inl (DownloadError ''zip'' 0 ''No media file found in ZIP archive'')
              | Some base \<Rightarrow>
                  Inr \<lparr>baseMedia = base,
                       baseMediaType = var_baseMediaType vars,
                       overlay = var_overlay vars\<rparr>))"

text \<open>
  The entries that the loops can take as base media: files whose lower-cased name ends in
  one of the five extensions the loops test.
\<close>

abbreviation usable_media_entry :: "ZipEntry \<Rightarrow> bool" where
  "usable_media_entry entry \<equiv>
     \<not> isDirectory entry \<and>
     (endsWith (toLowerCase (entryName entry)) ''.jpg''
      \<or> endsWith (toLowerCase (entryName entry)) ''.jpeg''
      \<or> endsWith (toLowerCase (entryName entry)) ''.png''
      \<or> endsWith (toLowerCase (entryName entry)) ''.mp4''
      \<or> endsWith (toLowerCase (entryName entry)) ''.mov'')"

section \<open>Fetcher\<close>

definition DEFAULT_DOWNLOAD_DELAY_MS :: real where
  "DEFAULT_DOWNLOAD_DELAY_MS = 500"


record DownloadedMedia =
  data :: Buffer
  contentType :: string
  extension :: string

definition getExtensionFromContentType :: "string \<Rightarrow> MediaType \<Rightarrow> string" where
  "getExtensionFromContentType cType mType =
     (let type = toLowerCase cType in
      if str_includes type ''jpeg'' \<or> str_includes type ''jpg'' then ''jpg''
      else if str_includes type ''png'' then ''png''
      else if str_includes type ''gif'' then ''gif''
      else if str_includes type ''webp'' then ''webp''
      else if str_includes type ''heic'' then ''heic''
      else if str_includes type ''mp4'' then ''mp4''
      else if str_includes type ''quicktime'' \<or> str_includes type ''mov'' then ''mov''
      else if str_includes type ''webm'' then ''webm''
      else if mType = Image then ''jpg'' else ''mp4'')"

text \<open>\<^verbatim>\<open>s.split('?')\<close>: the pieces of \<open>s\<close> between the separators, at least one.\<close>

fun split_from :: "char \<Rightarrow> string \<Rightarrow> string \<Rightarrow> string list" where
  "split_from sep piece [] = [rev piece]"
| "split_from sep piece (c # cs) =
     (if c = sep then rev piece # split_from sep [] cs else split_from sep (c # piece) cs)"

definition split_on :: "char \<Rightarrow> string \<Rightarrow> string list" where
  "split_on sep s = split_from sep [] s"

text \<open>\<^verbatim>\<open>s.trim()\<close>, on ASCII white space.\<close>

definition trim :: "string \<Rightarrow> string" where
  "trim s = rev (dropWhile is_whitespace (rev (dropWhile is_whitespace s)))"

text \<open>
  A response of \<^verbatim>\<open>fetch\<close>: status line, the \<^verbatim>\<open>content-type\<close> header if present, and what
  reading the body gives (its text for the exchange request, its bytes for the file), which
  can fail. \<^verbatim>\<open>ok\<close> holds for the statuses 200 to 299.
\<close>

record 'b Response =
  status :: int
  statusText :: string
  header_content_type :: "string option"
  body :: "thrown + 'b"

definition ok :: "'b Response \<Rightarrow> bool" where
  "ok response \<longleftrightarrow> 200 \<le> status response \<and> status response \<le> 299"

text \<open>
  What the network and the random generator do during one attempt: the answer to the
  POST of the query string to the base URL, the answer to the GET of a signed URL (either
  a response, or the error with which \<^verbatim>\<open>fetch\<close> rejects), and the value of
  \<^verbatim>\<open>Math.random()\<close> for the backoff delay.
\<close>

record attempt_net =
  proxy_fetch :: "string \<Rightarrow> string \<Rightarrow> thrown + string Response"
  file_fetch :: "string \<Rightarrow> thrown + Buffer Response"
  random :: real

text \<open>
  How one pass through the loop body ends: with \<^verbatim>\<open>continue\<close> after a retryable error, with
  the \<^verbatim>\<open>return\<close> of the media, or with an error thrown.
\<close>

datatype attempt_step =
    Continue thrown
  | Return DownloadedMedia
  | Throw thrown

text \<open>
  The \<^verbatim>\<open>try\<close> block of \<^verbatim>\<open>downloadMemory\<close>. \<open>attempts_remain\<close> is the test
  \<^verbatim>\<open>attempt < maxRetries\<close>.
\<close>

definition try_block ::
  "attempt_net \<Rightarrow> SnapchatMemory \<Rightarrow> string \<Rightarrow> string \<Rightarrow> string \<Rightarrow> bool \<Rightarrow> attempt_step" where
  "try_block net mem url baseUrl queryString attempts_remain =
     (case proxy_fetch net baseUrl queryString of
        Inl rejected \<Rightarrow> Throw rejected
      | Inr proxyResponse \<Rightarrow>
          if \<not> ok proxyResponse then
            (let err = DownloadError url (status proxyResponse) (statusText proxyResponse) in
             if attempts_remain \<and> isRetryableError err then Continue err else Throw err)
          else
            (case body proxyResponse of
               Inl rejected \<Rightarrow> Throw rejected
             | Inr signedUrl \<Rightarrow>
                 if signedUrl = [] \<or> \<not> startsWith signedUrl ''http'' then
                   Throw (DownloadError url 0
                            (''Invalid signed URL response: '' @ take 100 signedUrl))
                 else
                   (case file_fetch net (trim signedUrl) of
                      Inl rejected \<Rightarrow> Throw rejected
                    | Inr fileResponse \<Rightarrow>
                        if \<not> ok fileResponse then
                          (let err = DownloadError signedUrl (status fileResponse)
                                       (statusText fileResponse) in
                           if attempts_remain \<and> isRetryableError err
                           then Continue err else Throw err)
                        else
                          (let cType =
                                 (case header_content_type fileResponse of
                                    None \<Rightarrow> ''application/octet-stream''
                                  | Some h \<Rightarrow>
                                      if h = [] then ''application/octet-stream'' else h)
                           in case body fileResponse of
                                Inl rejected \<Rightarrow> Throw rejected
                              | Inr bytes \<Rightarrow>
                                  if length bytes = 0 then
                                    Throw (DownloadError signedUrl (status fileResponse)
                                             ''Empty response body'')
                                  else
                                    Return \<lparr>data = bytes, contentType = cType,
                                            extension = getExtensionFromContentType cType
                                                          (mediaType mem)\<rparr>))))"

text \<open>The \<^verbatim>\<open>catch\<close> block, applied to what the \<^verbatim>\<open>try\<close> block threw.\<close>

definition catch_block :: "bool \<Rightarrow> thrown \<Rightarrow> attempt_step" where
  "catch_block attempts_remain err =
     (case err of
        DownloadError u c m \<Rightarrow>
          if attempts_remain \<and> isRetryableError err then Continue err else Throw err
      | OtherError m \<Rightarrow>
          if attempts_remain \<and> isRetryableError err then Continue err else Throw err
      | NotAnError \<Rightarrow> Throw err)"

definition run_attempt ::
  "attempt_net \<Rightarrow> SnapchatMemory \<Rightarrow> string \<Rightarrow> string \<Rightarrow> string \<Rightarrow> bool \<Rightarrow> attempt_step" where
  "run_attempt net mem url baseUrl queryString attempts_remain =
     (case try_block net mem url baseUrl queryString attempts_remain of
        Throw err \<Rightarrow> catch_block attempts_remain err
      | step \<Rightarrow> step)"

text \<open>
  The outcome of \<^verbatim>\<open>downloadMemory\<close>: the media returned or the error thrown, the number of
  passes through the loop body (each starts with the exchange request), the calls that the
  retry callback received (attempt number, delay, error) and the delays slept.
\<close>

record download_outcome =
  result :: "thrown + DownloadedMedia"
  attempts_made :: nat
  retry_calls :: "(nat \<times> number \<times> thrown) list"
  sleeps :: "number list"

record download_options =
  maxRetries :: "int option"
  onRetry :: bool

text \<open>
  The \<^verbatim>\<open>for\<close> loop of \<^verbatim>\<open>downloadMemory\<close> from the pass \<open>attempt\<close> on; after the loop the
  function throws the last error.
\<close>

function attempt_loop ::
  "(nat \<Rightarrow> attempt_net) \<Rightarrow> SnapchatMemory \<Rightarrow> string \<Rightarrow> string \<Rightarrow> string \<Rightarrow> int \<Rightarrow> bool
     \<Rightarrow> nat \<Rightarrow> thrown option \<Rightarrow> (nat \<times> number \<times> thrown) list \<Rightarrow> number list
     \<Rightarrow> download_outcome" where
  "attempt_loop net mem url baseUrl queryString maxR callback attempt lastError calls slept =
     (if int attempt \<le> maxR then
        (case run_attempt (net attempt) mem url baseUrl queryString (int attempt < maxR) of
           Continue err \<Rightarrow>
             (let delay = calculateBackoffDelay (random (net attempt)) attempt
                            BACKOFF_BASE_DELAY_MS
              in attempt_loop net mem url baseUrl queryString maxR callback (attempt + 1)
                   (Some err)
                   (if callback then calls @ [(attempt + 1, delay, err)] else calls)
                   (slept @ [delay]))
         | Return downloaded \<Rightarrow>
             \<lparr>result = Inr downloaded, attempts_made = attempt + 1,
              retry_calls = calls, sleeps = slept\<rparr>
         | Throw err \<Rightarrow>
             \<lparr>result = Inl err, attempts_made = attempt + 1,
              retry_calls = calls, sleeps = slept\<rparr>)
      else
        \<lparr>result = Inl (case lastError of
                         Some err \<Rightarrow> err
                       | None \<Rightarrow> OtherError ''Download failed after retries''),
         attempts_made = attempt, retry_calls = calls, sleeps = slept\<rparr>)"
  by pat_completeness auto
termination
  by (relation "measure (\<lambda>(net, mem, url, baseUrl, queryString, maxR, callback, attempt,
                            lastError, calls, slept). nat (maxR + 1 - int attempt))") auto

declare attempt_loop.simps [simp del]

text \<open>
  \<^verbatim>\<open>downloadMemory(memory, options)\<close>. \<open>net\<close> gives the network's behaviour during each
  pass of the loop.
\<close>

definition downloadMemory ::
  "(nat \<Rightarrow> attempt_net) \<Rightarrow> SnapchatMemory \<Rightarrow> download_options \<Rightarrow> download_outcome" where
  "downloadMemory net mem options =
     (let maxR = (case maxRetries options of None \<Rightarrow> DEFAULT_MAX_RETRIES | Some n \<Rightarrow> n);
          url = downloadUrl mem;
          parts = split_on CHR ''?'' url;
          baseUrl = hd parts;
          queryString = (if length parts > 1 then parts ! 1 else [])
      in if queryString = [] then
           \<lparr>result = Inl (DownloadError url 0
                             ''Invalid download URL format - missing query parameters''),
            attempts_made = 0, retry_calls = [], sleeps = []\<rparr>
         else attempt_loop net mem url baseUrl queryString maxR (onRetry options)
                0 None [] [])"

section \<open>Orchestrator\<close>

record BatchDownloadResult =
  memory :: SnapchatMemory
  success :: bool
  media :: "DownloadedMedia option"
  error :: "string option"
  retries :: "nat option"














section \<open>Manifest store\<close>


definition MANIFEST_VERSION :: int where
  "MANIFEST_VERSION = 1"

record ManifestEntry =
  entry_mediaId :: string
  downloadedAt :: string
  filePath :: string
  fileSize :: nat
  entry_mediaType :: MediaType
  originalDate :: string

text \<open>
  The manifest keeps its entries in a plain JavaScript object, created by an object
  literal or by \<^verbatim>\<open>JSON.parse\<close>. Such an object has its own properties, in the order of
  their creation, and a prototype, which is \<^verbatim>\<open>Object.prototype\<close> unless it was replaced
  (\<open>prototype\<close> is then the replacement).

  The assignment \<^verbatim>\<open>obj[key] = value\<close> of an object value updates or creates the own property
  \<open>key\<close>, with one exception that \<^verbatim>\<open>Object.prototype\<close> brings: when \<open>key\<close> is \<^verbatim>\<open>__proto__\<close>
  and the object has no own property of that name, the assignment runs the inherited
  setter, which replaces the object's prototype and creates no property.
  \<^verbatim>\<open>Object.keys\<close> lists the own properties only.
\<close>

record 'v js_object =
  own_properties :: "(string \<times> 'v) list"
  prototype :: "'v option"

definition empty_object :: "'v js_object" where
  "empty_object = \<lparr>own_properties = [], prototype = None\<rparr>"

definition object_set :: "'v js_object \<Rightarrow> string \<Rightarrow> 'v \<Rightarrow> 'v js_object" where
  "object_set obj key v =
     (if key = ''__proto__'' \<and> map_of (own_properties obj) key = None
      then obj\<lparr>prototype := Some v\<rparr>
      else obj\<lparr>own_properties := AList.update key v (own_properties obj)\<rparr>)"

text \<open>The set that \<^verbatim>\<open>new Set(Object.keys(obj))\<close> builds.\<close>

definition Object_keys_set :: "'v js_object \<Rightarrow> string set" where
  "Object_keys_set obj = set (map fst (own_properties obj))"

record ExportManifest =
  version :: int
  createdAt :: string
  updatedAt :: string
  outputDir :: string
  entries :: "ManifestEntry js_object"


text \<open>
  \<^verbatim>\<open>createManifest\<close>; \<open>nowISO\<close> is the clock's reading, \<^verbatim>\<open>new Date().toISOString()\<close>.
\<close>

definition createManifest :: "string \<Rightarrow> string \<Rightarrow> ExportManifest" where
  "createManifest nowISO dir =
     \<lparr>version = MANIFEST_VERSION, createdAt = nowISO, updatedAt = nowISO,
      outputDir = dir, entries = empty_object\<rparr>"

text \<open>
  \<^verbatim>\<open>addManifestEntry\<close> mutates the manifest and returns the entry; the model returns the
  entry and the manifest after the assignment. \<open>toISOString\<close> prints the memory's date.
\<close>

definition addManifestEntry ::
  "string \<Rightarrow> (int \<Rightarrow> string) \<Rightarrow> ExportManifest \<Rightarrow> SnapchatMemory \<Rightarrow> string \<Rightarrow> nat
     \<Rightarrow> ManifestEntry \<times> ExportManifest" where
  "addManifestEntry nowISO toISOString manifest mem path bytes =
     (let entry = \<lparr>entry_mediaId = mediaId mem,
                   downloadedAt = nowISO,
                   filePath = path,
                   fileSize = bytes,
                   entry_mediaType = mediaType mem,
                   originalDate = toISOString (date mem)\<rparr>
      in (entry, manifest\<lparr>entries := object_set (entries manifest) (mediaId mem) entry\<rparr>))"

definition getDownloadedIds :: "ExportManifest \<Rightarrow> string set" where
  "getDownloadedIds manifest = Object_keys_set (entries manifest)"

definition filterPendingMemories ::
  "SnapchatMemory list \<Rightarrow> ExportManifest \<Rightarrow> SnapchatMemory list" where
  "filterPendingMemories memories manifest =
     (let downloadedIds = getDownloadedIds manifest
      in filter (\<lambda>mem. mediaId mem \<notin> downloadedIds) memories)"

subsection \<open>Loading the manifest\<close>

text \<open>A value that \<^verbatim>\<open>JSON.parse\<close> returns; an object holds each of its keys once.\<close>

datatype json =
    JNull
  | JBool bool
  | JNumber real
  | JString string
  | JArray "json list"
  | JObject "(string \<times> json) list"







section \<open>Properties of the string methods\<close>

lemma startsWith_iff: "startsWith s p \<longleftrightarrow> (\<exists>post. s = p @ post)"
proof
  assume "startsWith s p"
  then have "s = p @ drop (length p) s"
    by (metis startsWith_def append_take_drop_id)
  then show "\<exists>post. s = p @ post" ..
next
  assume "\<exists>post. s = p @ post"
  then show "startsWith s p" by (auto simp: startsWith_def)
qed

lemma endsWith_iff: "endsWith s p \<longleftrightarrow> (\<exists>pre. s = pre @ p)"
proof
  assume "endsWith s p"
  then have "s = take (length s - length p) s @ p"
    by (metis endsWith_def append_take_drop_id)
  then show "\<exists>pre. s = pre @ p" ..
next
  assume "\<exists>pre. s = pre @ p"
  then show "endsWith s p" by (auto simp: endsWith_def)
qed

lemma str_includes_iff: "str_includes s p \<longleftrightarrow> (\<exists>pre post. s = pre @ p @ post)"
proof (induction s)
  case Nil
  then show ?case by auto
next
  case (Cons c cs)
  have "(\<exists>pre post. c # cs = pre @ p @ post)
        \<longleftrightarrow> (\<exists>post. c # cs = p @ post) \<or> (\<exists>pre post. cs = pre @ p @ post)"
  proof
    assume "\<exists>pre post. c # cs = pre @ p @ post"
    then obtain pre post where eq: "c # cs = pre @ p @ post" by blast
    show "(\<exists>post. c # cs = p @ post) \<or> (\<exists>pre post. cs = pre @ p @ post)"
    proof (cases pre)
      case Nil
      with eq show ?thesis by auto
    next
      case (Cons a pre')
      with eq have "cs = pre' @ p @ post" by simp
      then show ?thesis by blast
    qed
  next
    assume "(\<exists>post. c # cs = p @ post) \<or> (\<exists>pre post. cs = pre @ p @ post)"
    then show "\<exists>pre post. c # cs = pre @ p @ post"
    proof
      assume "\<exists>post. c # cs = p @ post"
      then obtain post where "c # cs = [] @ p @ post" by auto
      then show ?thesis by blast
    next
      assume "\<exists>pre post. cs = pre @ p @ post"
      then obtain pre post where "c # cs = (c # pre) @ p @ post" by auto
      then show ?thesis by blast
    qed
  qed
  with Cons show ?case by (simp add: startsWith_iff)
qed

section \<open>Properties of JavaScript numbers\<close>

text \<open>
  Rounding to a double moves a real by at most half the spacing of the doubles around it:
  by at most the fraction \<open>2\<close> to the power \<open>- 53\<close> of its magnitude, or by \<open>2\<close> to the power
  \<open>- 1075\<close> among the subnormal numbers.
\<close>

lemma round_half_even_error: "\<bar>of_int (round_half_even y) - y\<bar> \<le> 1 / 2"
proof -
  have "of_int \<lfloor>y\<rfloor> \<le> y" "y < of_int \<lfloor>y\<rfloor> + 1" by linarith+
  then show ?thesis
    by (auto simp: round_half_even_def Let_def)
qed

lemma round_half_even_of_int: "round_half_even (of_int z) = z"
  by (simp add: round_half_even_def)

lemma double_ulp_pos: "0 < double_ulp x"
  by (simp add: double_ulp_def)

lemma round_to_double_ulp: "\<bar>round_to_double x - x\<bar> \<le> double_ulp x / 2"
proof (cases "x = 0")
  case True
  then show ?thesis using double_ulp_pos [of x] by (simp add: round_to_double_def)
next
  case False
  define u where "u = double_ulp x"
  have u: "0 < u" by (simp add: u_def double_ulp_pos)
  have "\<bar>of_int (round_half_even (x / u)) - x / u\<bar> \<le> 1 / 2"
    by (rule round_half_even_error)
  then have "\<bar>of_int (round_half_even (x / u)) - x / u\<bar> * u \<le> 1 / 2 * u"
    using u by (intro mult_right_mono) simp_all
  moreover have "(of_int (round_half_even (x / u)) - x / u) * u
                 = of_int (round_half_even (x / u)) * u - x"
    using u by (simp add: field_simps)
  then have "\<bar>of_int (round_half_even (x / u)) - x / u\<bar> * u
                 = \<bar>of_int (round_half_even (x / u)) * u - x\<bar>"
    using u by (metis abs_mult abs_of_pos)
  ultimately show ?thesis
    using False by (simp add: round_to_double_def u_def)
qed

lemma double_ulp_bound:
  assumes "x \<noteq> 0"
  shows "double_ulp x \<le> \<bar>x\<bar> / 2 ^ 52 \<or> double_ulp x = 1 / 2 ^ 1074"
proof (cases "- 1022 \<le> \<lfloor>log 2 \<bar>x\<bar>\<rfloor>")
  case True
  then have ex: "double_exponent x = \<lfloor>log 2 \<bar>x\<bar>\<rfloor>" by (simp add: double_exponent_def)
  have "of_int \<lfloor>log 2 \<bar>x\<bar>\<rfloor> \<le> log 2 \<bar>x\<bar>" by simp
  then have "2 powr of_int \<lfloor>log 2 \<bar>x\<bar>\<rfloor> \<le> 2 powr log 2 \<bar>x\<bar>"
    by (simp only: powr_le_cancel_iff) 
  also have "\<dots> = \<bar>x\<bar>" using assms by simp
  finally have "2 powr of_int \<lfloor>log 2 \<bar>x\<bar>\<rfloor> \<le> \<bar>x\<bar>" .
  moreover have "double_ulp x = 2 powr of_int \<lfloor>log 2 \<bar>x\<bar>\<rfloor> / 2 ^ 52"
    by (simp add: double_ulp_def ex powr_diff powr_realpow [symmetric])
  ultimately show ?thesis by (simp add: divide_right_mono)
next
  case False
  then have "double_exponent x = - 1022" by (simp add: double_exponent_def)
  then have "double_ulp x = 2 powr (- 1074)" by (simp add: double_ulp_def)
  also have "\<dots> = 1 / 2 ^ 1074"
    by (simp add: powr_minus_divide powr_realpow [symmetric])
  finally show ?thesis by simp
qed

lemma round_to_double_error:
  "\<bar>round_to_double x - x\<bar> \<le> \<bar>x\<bar> / 2 ^ 53 + 1 / 2 ^ 1075"
proof (cases "x = 0")
  case True
  then show ?thesis by (simp add: round_to_double_def)
next
  case False
  have half: "\<bar>round_to_double x - x\<bar> \<le> double_ulp x / 2" by (rule round_to_double_ulp)
  from double_ulp_bound [OF False] show ?thesis
  proof
    assume "double_ulp x \<le> \<bar>x\<bar> / 2 ^ 52"
    then have "double_ulp x / 2 \<le> \<bar>x\<bar> / 2 ^ 53" by simp
    moreover have "(0 :: real) \<le> 1 / 2 ^ 1075" by simp
    ultimately show ?thesis using half by linarith
  next
    assume "double_ulp x = 1 / 2 ^ 1074"
    then have "double_ulp x / 2 = 1 / 2 ^ 1075" by simp
    moreover have "0 \<le> \<bar>x\<bar> / 2 ^ 53" by simp
    ultimately show ?thesis using half by linarith
  qed
qed

text \<open>
  A real with a significand of at most 53 bits and an exponent in range is a double, and
  rounding leaves it as it is.
\<close>

lemma round_to_double_exact:
  assumes x: "x = of_int m * 2 powr of_int k" and m: "\<bar>m\<bar> < 2 ^ 53" and k: "- 1074 \<le> k"
  shows "round_to_double x = x"
proof (cases "x = 0")
  case True
  then show ?thesis by (simp add: round_to_double_def)
next
  case False
  have absx: "\<bar>x\<bar> = of_int \<bar>m\<bar> * 2 powr of_int k"
    by (simp add: x abs_mult)
  have "real_of_int \<bar>m\<bar> < 2 ^ 53"
    using m by (metis of_int_less_numeral_power_cancel_iff)
  then have "\<bar>x\<bar> < 2 ^ 53 * 2 powr of_int k"
    unfolding absx by (intro mult_strict_right_mono) simp_all
  also have "\<dots> = (2 :: real) powr of_int (53 + k)"
    by (simp add: powr_add powr_realpow [symmetric])
  finally have "log 2 \<bar>x\<bar> < of_int (53 + k)"
    using False by (subst log_less_iff) simp_all
  then have "\<lfloor>log 2 \<bar>x\<bar>\<rfloor> < 53 + k"
    by (simp only: floor_less_iff)
  with k have c: "double_exponent x - 52 \<le> k"
    by (simp add: double_exponent_def)
  define c where "c = double_exponent x - 52"
  define n where "n = nat (k - c)"
  have kc: "k = c + int n" using c by (simp add: n_def c_def)
  have p: "(2 :: real) powr of_int k = 2 powr of_int c * 2 ^ n"
    by (simp add: kc powr_add powr_realpow [symmetric])
  have ulp: "double_ulp x = 2 powr of_int c" by (simp add: double_ulp_def c_def)
  have pos: "(2 :: real) powr of_int c > 0" by simp
  have xe: "x = of_int (m * 2 ^ n) * 2 powr of_int c"
    by (simp add: x p)
  have "x / 2 powr of_int c = of_int (m * 2 ^ n)"
    using pos by (subst xe) simp
  then have "x / double_ulp x = of_int (m * 2 ^ n)"
    by (simp only: ulp)
  then have "round_half_even (x / double_ulp x) = m * 2 ^ n"
    by (simp only: round_half_even_of_int)
  then have "round_to_double x = of_int (m * 2 ^ n) * 2 powr of_int c"
    using False by (simp add: round_to_double_def ulp)
  also have "\<dots> = x" by (rule xe [symmetric])
  finally show ?thesis .
qed

lemma round_to_double_of_int:
  "\<bar>m\<bar> < 2 ^ 53 \<Longrightarrow> round_to_double (of_int m) = of_int m"
  using round_to_double_exact [of "of_int m" m 0] by simp

lemma round_to_double_power2_times:
  "\<bar>m\<bar> < 2 ^ 53 \<Longrightarrow> round_to_double (of_int m * 2 ^ n) = of_int m * 2 ^ n"
  using round_to_double_exact [of "of_int m * 2 ^ n" m "int n"]
  by (simp add: powr_realpow [symmetric])

lemma to_number_finite:
  assumes "\<bar>x\<bar> \<le> 2 ^ 1023"
  shows "\<exists>y. to_number x = Finite y \<and> \<bar>y - x\<bar> \<le> \<bar>x\<bar> / 2 ^ 53 + 1 / 2 ^ 1075"
proof -
  have err: "\<bar>round_to_double x - x\<bar> \<le> \<bar>x\<bar> / 2 ^ 53 + 1 / 2 ^ 1075"
    by (rule round_to_double_error)
  have "\<bar>x\<bar> / 2 ^ 53 \<le> \<bar>x\<bar> / 2" by (intro divide_left_mono) simp_all
  moreover have "(1 :: real) / 2 ^ 1075 \<le> 1" by simp
  moreover have "(2 :: real) ^ 1023 * 2 = 2 ^ 1024" by simp
  moreover have "(1 :: real) < 2 ^ 1023 / 2"  by simp
  ultimately have "\<bar>round_to_double x\<bar> < 2 ^ 1024"
    using err assms by linarith
  then have "to_number x = Finite (round_to_double x)"
    by (simp add: to_number_def Let_def abs_less_iff not_le)
  with err show ?thesis by simp
qed

lemma to_number_exact:
  assumes "\<bar>m\<bar> < 2 ^ 53"
  shows "to_number (of_int m * 2 ^ n) =
           (if 2 ^ 1024 \<le> real_of_int m * 2 ^ n then PosInfinity
            else if real_of_int m * 2 ^ n \<le> - (2 ^ 1024) then NegInfinity
            else Finite (of_int m * 2 ^ n))"
  by (simp only: to_number_def Let_def round_to_double_power2_times [OF assms])

lemma to_number_of_int:
  assumes "\<bar>m\<bar> < 2 ^ 53"
  shows "to_number (of_int m) = Finite (of_int m)"
proof -
  have "real_of_int \<bar>m\<bar> < 2 ^ 53"
    using assms by (metis of_int_less_numeral_power_cancel_iff)
  moreover have "(2 :: real) ^ 53 < 2 ^ 1024" by simp
  ultimately have "\<bar>real_of_int m\<bar> < 2 ^ 1024" by simp
  then show ?thesis
    by (simp add: to_number_def Let_def round_to_double_of_int [OF assms] abs_less_iff not_le)
qed

lemma to_number_zero [simp]: "to_number 0 = Finite 0"
  using to_number_of_int [of 0] by simp

lemma to_number_one [simp]: "to_number 1 = Finite 1"
  using to_number_of_int [of 1] by simp

lemma to_number_numeral [simp]:
  "(numeral w :: int) < 2 ^ 53 \<Longrightarrow> to_number (numeral w) = Finite (numeral w)"
  using to_number_of_int [of "numeral w"] by simp

lemma to_number_neg_numeral [simp]:
  "(numeral w :: int) < 2 ^ 53 \<Longrightarrow> to_number (- numeral w) = Finite (- numeral w)"
  using to_number_of_int [of "- numeral w"] by simp

lemma to_number_neg_one [simp]: "to_number (- 1) = Finite (- 1)"
  using to_number_of_int [of "- 1"] by simp


text \<open>
  Between two consecutive powers of two the spacing of the doubles is constant.
\<close>

lemma double_ulp_binade:
  assumes lo: "2 powr of_int k \<le> \<bar>x\<bar>" and hi: "\<bar>x\<bar> < 2 powr of_int (k + 1)" and k: "- 1022 \<le> k"
  shows "double_ulp x = 2 powr of_int (k - 52)"
proof -
  have pos: "0 < \<bar>x\<bar>" using lo by (rule less_le_trans [rotated]) simp
  have "of_int k \<le> log 2 \<bar>x\<bar>" using lo pos by (subst le_log_iff) simp_all
  moreover have "log 2 \<bar>x\<bar> < of_int k + 1" using hi pos by (subst log_less_iff) simp_all
  ultimately have "\<lfloor>log 2 \<bar>x\<bar>\<rfloor> = k" by (simp add: floor_eq_iff)
  with k show ?thesis by (simp add: double_ulp_def double_exponent_def)
qed


lemma Math_min_not_greater: "\<not> number_greater (Math_min a b) b"
  by (cases a; cases b) simp_all


lemma Math_pow2_exact:
  assumes "attempt \<le> 1023"
  shows "Math_pow2 attempt = Finite (2 ^ attempt)"
proof -
  have "attempt < 1024" using assms by simp
  then have lt: "(2 :: real) ^ attempt < 2 ^ 1024"
    by (intro power_strict_increasing) simp_all
  have pos: "\<not> (2 :: real) ^ attempt \<le> - (2 ^ 1024)"
  proof -
    have "(0 :: real) < 2 ^ attempt" by simp
    moreover have "- ((2 :: real) ^ 1024) < 0" by simp
    ultimately show ?thesis by linarith
  qed
  have "to_number (of_int 1 * 2 ^ attempt) = Finite (of_int 1 * 2 ^ attempt)"
    using lt pos by (subst to_number_exact) (simp_all add: not_le)
  then show ?thesis by (simp add: Math_pow2_def)
qed


section \<open>Properties of the backoff policy\<close>

text \<open>
  The rounding errors of the six operations of \<^verbatim>\<open>calculateBackoffDelay\<close>, each of relative
  size at most \<open>d\<close> and absolute size at most \<open>h\<close>, add up to at most \<open>6 * d\<close> times the exact
  exponential delay \<open>E\<close> plus \<open>8 * h\<close>.
\<close>

lemma sample_product_bound:
  fixes r t d h :: real
  assumes r: "0 \<le> r" "r < 1" and d: "0 \<le> d" "d \<le> 1 / 1000" and h: "0 \<le> h" "h \<le> d"
    and t: "\<bar>t - r * 2\<bar> \<le> d * \<bar>r * 2\<bar> + h"
  shows "\<bar>t - r * 2\<bar> \<le> 2 * d + h" and "\<bar>t - 1\<bar> \<le> 1 + 2 * d + h"
proof -
  have "d * \<bar>r * 2\<bar> \<le> d * 2"
    using r d(1) by (intro mult_left_mono) simp_all
  with t show t': "\<bar>t - r * 2\<bar> \<le> 2 * d + h" by linarith
  with r show "\<bar>t - 1\<bar> \<le> 1 + 2 * d + h" by linarith
qed

lemma sample_factor_bound:
  fixes r t s d h :: real
  assumes r: "0 \<le> r" "r < 1" and d: "0 \<le> d" "d \<le> 1 / 1000" and h: "0 \<le> h" "h \<le> d"
    and t: "\<bar>t - r * 2\<bar> \<le> d * \<bar>r * 2\<bar> + h"
    and s: "\<bar>s - (t - 1)\<bar> \<le> d * \<bar>t - 1\<bar> + h"
  shows "\<bar>s\<bar> \<le> 1 + 6 * d"
proof -
  have dd: "d * d \<le> d / 1000"
    using mult_left_mono [OF d(2) d(1)] by simp
  have dh: "d * h \<le> h / 1000"
    using mult_right_mono [OF d(2) h(1)] by simp
  note t' = sample_product_bound [OF r d h t]
  have "d * \<bar>t - 1\<bar> \<le> d * (1 + 2 * d + h)"
    using t'(2) d(1) by (intro mult_left_mono)
  also have "\<dots> = d + 2 * (d * d) + d * h" by (simp add: algebra_simps)
  finally have "d * \<bar>t - 1\<bar> \<le> d + d / 500 + h / 1000" using dd dh by linarith
  with s t'(1) r h show "\<bar>s\<bar> \<le> 1 + 6 * d" by linarith
qed

lemma backoff_band:
  fixes E e q s j x d h :: real
  assumes E: "0 < E" and d: "0 \<le> d" "d \<le> 1 / 1000" and h: "0 \<le> h"
    and e: "\<bar>e - E\<bar> \<le> d * \<bar>E\<bar> + h"
    and q: "\<bar>q - e * (1 / 4)\<bar> \<le> d * \<bar>e * (1 / 4)\<bar> + h"
    and s: "\<bar>s\<bar> \<le> 1 + 6 * d"
    and j: "\<bar>j - q * s\<bar> \<le> d * \<bar>q * s\<bar> + h"
    and x: "\<bar>x - (e + j)\<bar> \<le> d * \<bar>e + j\<bar> + h"
  shows "E * (3 / 4) - 6 * (d * E) - 8 * h \<le> x"
    and "x \<le> E * (5 / 4) + 6 * (d * E) + 8 * h"
proof -
  define a where "a = d * E"
  have a0: "0 \<le> a" using d E by (simp add: a_def)
  have da: "d * a \<le> a / 1000"
    using mult_right_mono [OF d(2) a0] by simp
  have dh: "d * h \<le> h / 1000"
    using mult_right_mono [OF d(2) h] by simp
  have e1: "\<bar>e - E\<bar> \<le> a + h" using e E by (simp add: a_def)
  with E have eabs: "\<bar>e\<bar> \<le> E + a + h" by linarith
  have "d * \<bar>e\<bar> \<le> d * (E + a + h)"
    using eabs d(1) by (intro mult_left_mono)
  also have "\<dots> = a + d * a + d * h" by (simp add: a_def algebra_simps)
  finally have de: "d * \<bar>e\<bar> \<le> a + a / 1000 + h / 1000" using da dh by linarith
  have "d * \<bar>e * (1 / 4)\<bar> = d * \<bar>e\<bar> / 4" by (simp add: abs_mult)
  with q have q1: "\<bar>q - e / 4\<bar> \<le> d * \<bar>e\<bar> / 4 + h" by simp
  with de eabs a0 h have qabs: "\<bar>q\<bar> \<le> E / 4 + (51 / 100) * a + (126 / 100) * h" by linarith
  have "d * \<bar>q\<bar> \<le> d * (E / 4 + (51 / 100) * a + (126 / 100) * h)"
    using qabs d(1) by (intro mult_left_mono)
  also have "\<dots> = a / 4 + (51 / 100) * (d * a) + (126 / 100) * (d * h)"
    by (simp add: a_def algebra_simps)
  finally have dq: "d * \<bar>q\<bar> \<le> (26 / 100) * a + (2 / 1000) * h" using da dh a0 h by linarith
  have s2: "\<bar>s\<bar> \<le> 1006 / 1000" using s d by linarith
  have "\<bar>q * s\<bar> = \<bar>q\<bar> * \<bar>s\<bar>" by (rule abs_mult)
  also have "\<dots> \<le> \<bar>q\<bar> * (1 + 6 * d)" using s by (intro mult_left_mono) simp_all
  also have "\<dots> = \<bar>q\<bar> + 6 * (d * \<bar>q\<bar>)" by (simp add: algebra_simps)
  finally have qs: "\<bar>q * s\<bar> \<le> \<bar>q\<bar> + 6 * (d * \<bar>q\<bar>)" .
  have "\<bar>q * s\<bar> = \<bar>q\<bar> * \<bar>s\<bar>" by (rule abs_mult)
  also have "\<dots> \<le> \<bar>q\<bar> * (1006 / 1000)" using s2 by (intro mult_left_mono) simp_all
  finally have "d * \<bar>q * s\<bar> \<le> d * (\<bar>q\<bar> * (1006 / 1000))"
    using d(1) by (intro mult_left_mono)
  then have dqs: "d * \<bar>q * s\<bar> \<le> (1006 / 1000) * (d * \<bar>q\<bar>)" by (simp add: algebra_simps)
  from j qs dqs have jabs: "\<bar>j\<bar> \<le> \<bar>q\<bar> + (7006 / 1000) * (d * \<bar>q\<bar>) + h" by linarith
  with qabs dq a0 h have jb: "\<bar>j\<bar> \<le> E / 4 + (24 / 10) * a + (23 / 10) * h" by linarith
  have "d * \<bar>j\<bar> \<le> d * (E / 4 + (24 / 10) * a + (23 / 10) * h)"
    using jb d(1) by (intro mult_left_mono)
  also have "\<dots> = a / 4 + (24 / 10) * (d * a) + (23 / 10) * (d * h)"
    by (simp add: a_def algebra_simps)
  finally have dj: "d * \<bar>j\<bar> \<le> (26 / 100) * a + (3 / 1000) * h" using da dh a0 h by linarith
  have "d * \<bar>e + j\<bar> \<le> d * (\<bar>e\<bar> + \<bar>j\<bar>)"
    using d(1) by (intro mult_left_mono) simp_all
  then have dx: "d * \<bar>e + j\<bar> \<le> d * \<bar>e\<bar> + d * \<bar>j\<bar>" by (simp add: algebra_simps)
  from x dx de dj e1 jb a0 h show "E * (3 / 4) - 6 * (d * E) - 8 * h \<le> x"
    unfolding a_def [symmetric] by linarith
  from x dx de dj e1 jb a0 h show "x \<le> E * (5 / 4) + 6 * (d * E) + 8 * h"
    unfolding a_def [symmetric] by linarith
qed

lemma calculateBackoffDelay_in_band:
  assumes rnd: "0 \<le> rnd" "rnd < 1" and b: "0 < b"
    and att: "attempt \<le> 1023" and range: "b * 2 ^ attempt \<le> 2 ^ 1022"
  shows "\<exists>y. calculateBackoffDelay rnd attempt (Finite b) = Finite y
           \<and> y \<le> 30000
           \<and> y \<le> b * 2 ^ attempt * 1.25 + b * 2 ^ attempt / 2 ^ 50 + 1 / 2 ^ 1072
           \<and> min (b * 2 ^ attempt * 0.75 - b * 2 ^ attempt / 2 ^ 50 - 1 / 2 ^ 1072) 30000 \<le> y"
proof -
  define E where "E = b * 2 ^ attempt"
  define d :: real where "d = 1 / 2 ^ 53"
  define h :: real where "h = 1 / 2 ^ 1075"
  define M :: real where "M = 2 ^ 1022"
  have M: "10 \<le> M" "(2 :: real) ^ 1023 = 2 * M" by (simp_all add: M_def)
  have d: "0 \<le> d" "d \<le> 1 / 1000" by (simp_all add: d_def)
  have h: "0 \<le> h" "h \<le> d" by (simp_all add: d_def h_def)
  have h1: "h \<le> 1" using h d by linarith
  have near: "\<exists>y. to_number v = Finite y \<and> \<bar>y - v\<bar> \<le> d * \<bar>v\<bar> + h" if "\<bar>v\<bar> \<le> 2 * M" for v
  proof -
    from that have "\<bar>v\<bar> \<le> 2 ^ 1023" by (simp only: M(2))
    from to_number_finite [OF this] show ?thesis by (simp add: d_def h_def)
  qed
  have small: "d * u \<le> u / 1000" if "0 \<le> u" for u
    using mult_right_mono [OF d(2) that] by simp
  have E: "0 < E" "E \<le> M" using b range by (simp_all add: E_def M_def)
  have p: "number_times (Finite b) (Math_pow2 attempt) = to_number E"
    by (simp add: Math_pow2_exact [OF att] E_def)
  have "\<bar>E\<bar> \<le> 2 * M" using E M by linarith
  from near [OF this] obtain e where e: "to_number E = Finite e" "\<bar>e - E\<bar> \<le> d * \<bar>E\<bar> + h"
    by blast
  have eabs: "\<bar>e\<bar> \<le> (1001 / 1000) * M + 1"
    using e(2) small [of "\<bar>E\<bar>"] E h1 by linarith
  then have "\<bar>e * (1 / 4)\<bar> \<le> 2 * M" using M by (simp add: abs_mult)
  from near [OF this] obtain q where
    q: "to_number (e * (1 / 4)) = Finite q" "\<bar>q - e * (1 / 4)\<bar> \<le> d * \<bar>e * (1 / 4)\<bar> + h"
    by blast
  have qabs: "\<bar>q\<bar> \<le> (26 / 100) * M + 2"
  proof -
    have "\<bar>e * (1 / 4)\<bar> = \<bar>e\<bar> / 4" by (simp add: abs_mult)
    with q(2) small [of "\<bar>e\<bar> / 4"] eabs h1 M show ?thesis by linarith
  qed
  have "\<bar>rnd * 2\<bar> \<le> 2 * M" using rnd M by (simp add: abs_mult)
  from near [OF this] obtain t where
    t: "to_number (rnd * 2) = Finite t" "\<bar>t - rnd * 2\<bar> \<le> d * \<bar>rnd * 2\<bar> + h"
    by blast
  note tb = sample_product_bound [OF rnd d h t(2)]
  have "\<bar>t - 1\<bar> \<le> 2 * M" using tb(2) d h M by linarith
  from near [OF this] obtain s where
    s: "to_number (t - 1) = Finite s" "\<bar>s - (t - 1)\<bar> \<le> d * \<bar>t - 1\<bar> + h"
    by blast
  note sabs = sample_factor_bound [OF rnd d h t(2) s(2)]
  have qs: "\<bar>q * s\<bar> \<le> (27 / 100) * M + 3"
  proof -
    have "\<bar>q * s\<bar> = \<bar>q\<bar> * \<bar>s\<bar>" by (rule abs_mult)
    also have "\<dots> \<le> \<bar>q\<bar> * (1 + 6 * d)" using sabs by (intro mult_left_mono) simp_all
    also have "\<dots> = \<bar>q\<bar> + 6 * (d * \<bar>q\<bar>)" by (simp add: algebra_simps)
    finally show ?thesis using small [of "\<bar>q\<bar>"] qabs M by linarith
  qed
  then have "\<bar>q * s\<bar> \<le> 2 * M" using M by linarith
  from near [OF this] obtain j where
    j: "to_number (q * s) = Finite j" "\<bar>j - q * s\<bar> \<le> d * \<bar>q * s\<bar> + h"
    by blast
  have jabs: "\<bar>j\<bar> \<le> (28 / 100) * M + 5"
    using j(2) small [of "\<bar>q * s\<bar>"] qs h1 M by linarith
  have "\<bar>e + j\<bar> \<le> 2 * M" using eabs jabs M by linarith
  from near [OF this] obtain x where
    x: "to_number (e + j) = Finite x" "\<bar>x - (e + j)\<bar> \<le> d * \<bar>e + j\<bar> + h"
    by blast
  note band = backoff_band [OF E(1) d h(1) e(2) q(2) sabs j(2) x(2)]
  have val: "calculateBackoffDelay rnd attempt (Finite b) = Finite (min x 30000)"
    unfolding calculateBackoffDelay_def Let_def p e(1)
    by (simp add: q(1) [simplified] t(1) number_minus_def s(1) [simplified] j(1) x(1)
          BACKOFF_MAX_DELAY_MS_def min_def)
  have lo: "E * 0.75 - E / 2 ^ 50 - 1 / 2 ^ 1072 \<le> E * (3 / 4) - 6 * (d * E) - 8 * h"
    using E(1) by (simp add: d_def h_def)
  have hi: "E * (5 / 4) + 6 * (d * E) + 8 * h \<le> E * 1.25 + E / 2 ^ 50 + 1 / 2 ^ 1072"
    using E(1) by (simp add: d_def h_def)
  show ?thesis
    unfolding val E_def [symmetric] using band lo hi by (simp add: min_def)
qed

text \<open>
  Whatever the arguments, the result is not greater than the ceiling.
\<close>

lemma calculateBackoffDelay_not_above_ceiling:
  "\<not> number_greater (calculateBackoffDelay rnd attempt baseDelay) BACKOFF_MAX_DELAY_MS"
  by (simp only: calculateBackoffDelay_def Let_def Math_min_not_greater not_False_eq_True)

text \<open>
  Beyond the range of the doubles the result is not a delay at all. With the base of 1000 ms
  and attempt 1015 the exponential delay overflows to \<^verbatim>\<open>Infinity\<close>; with the jitter sample 0
  the jitter is \<^verbatim>\<open>-Infinity\<close>, their sum is \<^verbatim>\<open>NaN\<close>, and so is the minimum that is returned.
\<close>

lemma calculateBackoffDelay_overflow: "calculateBackoffDelay 0 1015 (Finite 1000) = NaN"
proof -
  have p: "Math_pow2 1015 = Finite (2 ^ 1015)"
    using to_number_exact [of 1 1015] by (simp add: Math_pow2_def)
  have e: "number_times (Finite 1000) (Finite (2 ^ 1015)) = PosInfinity"
    using to_number_exact [of 1000 1015] by simp
  have ed: "number_times (Finite 1000) (Math_pow2 1015) = PosInfinity"
    by (simp only: p e)
  show ?thesis
    unfolding calculateBackoffDelay_def Let_def ed
    by (simp add: number_minus_def BACKOFF_MAX_DELAY_MS_def)
qed

text \<open>
  Within the range the rounding can leave the exact band, by less than the spacing of the
  doubles. The base delay here is the double nearest to 0.7; with attempt 0 and the jitter
  sample 0 the exact sum, three quarters of the base, lies half way between two doubles and
  is rounded down to the even one.
\<close>

lemma to_number_seven_tenths:
  "to_number (3152519739159347 / 2 ^ 52) = Finite (3152519739159347 / 2 ^ 52)"
proof -
  have "round_to_double (3152519739159347 / 2 ^ 52) = 3152519739159347 / 2 ^ 52"
    by (rule round_to_double_exact [where m = 3152519739159347 and k = "- 52"])
       (simp_all add: powr_minus_divide)
  then show ?thesis by (simp add: to_number_def)
qed

lemma to_number_seven_tenths_quarter:
  "to_number (3152519739159347 / 2 ^ 54) = Finite (3152519739159347 / 2 ^ 54)"
proof -
  have "round_to_double (3152519739159347 / 2 ^ 54) = 3152519739159347 / 2 ^ 54"
    by (rule round_to_double_exact [where m = 3152519739159347 and k = "- 54"])
       (simp_all add: powr_minus_divide)
  then show ?thesis by (simp add: to_number_def)
qed

lemma to_number_tie:
  "to_number (9457559217478041 / 2 ^ 54) = Finite (4728779608739020 / 2 ^ 53)"
proof -
  define x :: real where "x = 9457559217478041 / 2 ^ 54"
  have "double_ulp x = 2 powr of_int (- 1 - 52)"
    by (rule double_ulp_binade) (simp_all add: x_def powr_minus_divide)
  then have ulp: "double_ulp x = 1 / 2 ^ 53" by (simp add: powr_minus_divide)
  have x0: "x \<noteq> 0" by (simp add: x_def)
  have quot: "x / (1 / 2 ^ 53) = 9457559217478041 / 2" by (simp add: x_def)
  have rhe: "round_half_even (x / (1 / 2 ^ 53)) = 4728779608739020"
    unfolding quot by (simp add: round_half_even_def)
  have "round_to_double x = of_int 4728779608739020 * (1 / 2 ^ 53)"
    using x0 by (simp only: round_to_double_def ulp rhe if_False)
  then have "round_to_double (9457559217478041 / 2 ^ 54) = 4728779608739020 / 2 ^ 53"
    by (simp add: x_def)
  then show ?thesis by (simp add: to_number_def)
qed

lemma calculateBackoffDelay_below_band:
  "calculateBackoffDelay 0 0 (Finite (3152519739159347 / 2 ^ 52)) = Finite (4728779608739020 / 2 ^ 53)
   \<and> (4728779608739020 / 2 ^ 53 :: real) < 3152519739159347 / 2 ^ 52 * 2 ^ 0 * 0.75"
proof -
  have e: "number_times (Finite (3152519739159347 / 2 ^ 52)) (Math_pow2 0)
             = Finite (3152519739159347 / 2 ^ 52)"
    using to_number_seven_tenths by (simp add: Math_pow2_def)
  have q: "number_times (Finite (3152519739159347 / 2 ^ 52)) (Finite 0.25)
             = Finite (3152519739159347 / 2 ^ 54)"
    using to_number_seven_tenths_quarter by simp
  have s: "number_minus (number_times (Finite 0) (Finite 2)) (Finite 1) = Finite (- 1)"
    by (simp add: number_minus_def)
  have j: "number_times (Finite (3152519739159347 / 2 ^ 54)) (Finite (- 1))
             = Finite (- (3152519739159347 / 2 ^ 54))"
  proof -
    have "round_to_double (- (3152519739159347 / 2 ^ 54)) = - (3152519739159347 / 2 ^ 54)"
      by (rule round_to_double_exact [where m = "- 3152519739159347" and k = "- 54"])
         (simp_all add: powr_minus_divide)
    then show ?thesis by (simp add: to_number_def)
  qed
  have x: "number_plus (Finite (3152519739159347 / 2 ^ 52)) (Finite (- (3152519739159347 / 2 ^ 54)))
             = Finite (4728779608739020 / 2 ^ 53)"
    using to_number_tie by simp
  have "calculateBackoffDelay 0 0 (Finite (3152519739159347 / 2 ^ 52))
          = Math_min (Finite (4728779608739020 / 2 ^ 53)) BACKOFF_MAX_DELAY_MS"
    unfolding calculateBackoffDelay_def Let_def e q s j x ..
  then show ?thesis by (simp add: BACKOFF_MAX_DELAY_MS_def)
qed

text \<open>
  Claim C2 as stated fails: the cap at 30000 ms wins over the lower jitter bound as soon
  as three quarters of the exponential delay exceed the cap. With a base of 1000 ms and
  attempt 6 the exponential delay is 64000 ms and its lower jitter bound 48000 ms; with the
  jitter sample \<open>1 / 2\<close> the function returns the cap, 30000 ms, which the lower bound exceeds.
\<close>

theorem C2_backoff_lower_bound_counterexample:
  "calculateBackoffDelay (1 / 2) 6 (Finite 1000) = Finite 30000
   \<and> number_greater (Finite (1000 * 2 ^ 6 * 0.75)) (calculateBackoffDelay (1 / 2) 6 (Finite 1000))"
  by (simp add: calculateBackoffDelay_def Math_pow2_def number_minus_def BACKOFF_MAX_DELAY_MS_def
      Let_def)

text \<open>
  Claim C2, amended: for every jitter sample of the half-open interval from 0 to 1 and
  every positive base delay the result is never greater than the 30000 ms ceiling; and
  whenever the attempt number is at most 1023 and the exponential delay, the base delay
  times \<open>2\<close> to the power of the attempt number, is at most \<open>2 ^ 1022\<close>, the result is a finite
  number that is at most 30000, at most 1.25 times the exponential delay, and at least the
  smaller of 30000 and 0.75 times the exponential delay, the last two up to the rounding of
  doubles: a relative error of \<open>2\<close> to the power \<open>- 50\<close> and an absolute error of \<open>2\<close> to the
  power \<open>- 1072\<close>. So the delay lies within the jitter band, up to rounding, whenever the band
  lies below the ceiling.
\<close>

theorem C2_backoff_delay_bounds:
  assumes "0 \<le> rnd" and "rnd < 1" and "0 < baseDelay"
  shows "\<not> number_greater (calculateBackoffDelay rnd attempt (Finite baseDelay)) (Finite 30000)
       \<and> (attempt \<le> 1023 \<and> baseDelay * 2 ^ attempt \<le> 2 ^ 1022 \<longrightarrow>
            (\<exists>delay. calculateBackoffDelay rnd attempt (Finite baseDelay) = Finite delay
               \<and> delay \<le> 30000
               \<and> delay \<le> baseDelay * 2 ^ attempt * 1.25 + baseDelay * 2 ^ attempt / 2 ^ 50
                          + 1 / 2 ^ 1072
               \<and> min (baseDelay * 2 ^ attempt * 0.75 - baseDelay * 2 ^ attempt / 2 ^ 50
                        - 1 / 2 ^ 1072) 30000 \<le> delay))"
proof (rule conjI)
  show "\<not> number_greater (calculateBackoffDelay rnd attempt (Finite baseDelay)) (Finite 30000)"
    using calculateBackoffDelay_not_above_ceiling [of rnd attempt "Finite baseDelay"]
    unfolding BACKOFF_MAX_DELAY_MS_def .
next
  show "attempt \<le> 1023 \<and> baseDelay * 2 ^ attempt \<le> 2 ^ 1022 \<longrightarrow>
            (\<exists>delay. calculateBackoffDelay rnd attempt (Finite baseDelay) = Finite delay
               \<and> delay \<le> 30000
               \<and> delay \<le> baseDelay * 2 ^ attempt * 1.25 + baseDelay * 2 ^ attempt / 2 ^ 50
                          + 1 / 2 ^ 1072
               \<and> min (baseDelay * 2 ^ attempt * 0.75 - baseDelay * 2 ^ attempt / 2 ^ 50
                        - 1 / 2 ^ 1072) 30000 \<le> delay)"
  proof (rule impI, elim conjE)
    assume "attempt \<le> 1023" and "baseDelay * 2 ^ attempt \<le> 2 ^ 1022"
    then show "\<exists>delay. calculateBackoffDelay rnd attempt (Finite baseDelay) = Finite delay
               \<and> delay \<le> 30000
               \<and> delay \<le> baseDelay * 2 ^ attempt * 1.25 + baseDelay * 2 ^ attempt / 2 ^ 50
                          + 1 / 2 ^ 1072
               \<and> min (baseDelay * 2 ^ attempt * 0.75 - baseDelay * 2 ^ attempt / 2 ^ 50
                        - 1 / 2 ^ 1072) 30000 \<le> delay"
      by (rule calculateBackoffDelay_in_band [OF assms])
  qed
qed

theorem C2_backoff_delay_bounds_witness:
  "calculateBackoffDelay 0 2 (Finite 1000) = Finite 3000
   \<and> \<not> number_greater (calculateBackoffDelay 0 2 (Finite 1000)) (Finite 30000)
   \<and> (3000 :: real) \<le> 30000
   \<and> (3000 :: real) \<le> 1000 * 2 ^ 2 * 1.25 + 1000 * 2 ^ 2 / 2 ^ 50 + 1 / 2 ^ 1072
   \<and> min (1000 * 2 ^ 2 * 0.75 - 1000 * 2 ^ 2 / 2 ^ 50 - 1 / 2 ^ 1072) 30000 \<le> (3000 :: real)"
  using C2_backoff_delay_bounds [of 0 1000 2]
  by (simp add: calculateBackoffDelay_def Math_pow2_def number_minus_def BACKOFF_MAX_DELAY_MS_def
      Let_def)


lemma ex_in_five:
  "(\<exists>tok pre post. tok \<in> {a, b, c, d, e} \<and> P tok pre post) \<longleftrightarrow>
     (\<exists>pre post. P a pre post) \<or> (\<exists>pre post. P b pre post) \<or> (\<exists>pre post. P c pre post)
     \<or> (\<exists>pre post. P d pre post) \<or> (\<exists>pre post. P e pre post)"
  by blast

lemma isRetryableError_OtherError_iff:
  "isRetryableError (OtherError m) \<longleftrightarrow>
     (\<exists>tok pre post.
        tok \<in> {''network'', ''timeout'', ''econnreset'', ''econnrefused'', ''socket''}
        \<and> toLowerCase m = pre @ tok @ post)"
  unfolding ex_in_five
  by (simp only: isRetryableError.simps Let_def str_includes_iff)

lemma isRetryableError_DownloadError_iff:
  "isRetryableError (DownloadError url statusCode msg)
   \<longleftrightarrow> statusCode \<in> {408, 429, 500, 502, 503, 504}"
  by (simp only: isRetryableError.simps RETRYABLE_STATUS_CODES_def)

text \<open>
  Claim C3: \<open>isRetryableError\<close> holds exactly for a download error whose status code is one
  of 408, 429, 500, 502, 503, 504, and for an error of another class whose lower-cased
  message contains one of the tokens network, timeout, econnreset, econnrefused, socket.
  So it is false for a value that is no error, for the status-0 download error of a
  malformed exchange response, for every 4xx status other than 408 and 429, and for the
  empty-body download error, which carries the status of a successful response.
\<close>

theorem C3_isRetryableError_exact:
  "(isRetryableError e \<longleftrightarrow>
      (\<exists>url statusCode msg. e = DownloadError url statusCode msg
          \<and> statusCode \<in> {408, 429, 500, 502, 503, 504})
      \<or> (\<exists>msg tok pre post. e = OtherError msg
          \<and> tok \<in> {''network'', ''timeout'', ''econnreset'', ''econnrefused'', ''socket''}
          \<and> toLowerCase msg = pre @ tok @ post))
   \<and> \<not> isRetryableError NotAnError
   \<and> \<not> isRetryableError (DownloadError url 0 msg)
   \<and> (400 \<le> s \<and> s \<le> 499 \<and> s \<noteq> 408 \<and> s \<noteq> 429 \<longrightarrow> \<not> isRetryableError (DownloadError url s msg))
   \<and> (200 \<le> s \<and> s \<le> 299 \<longrightarrow> \<not> isRetryableError (DownloadError url s ''Empty response body''))"
proof -
  have exact: "isRetryableError e \<longleftrightarrow>
      (\<exists>url statusCode msg. e = DownloadError url statusCode msg
          \<and> statusCode \<in> {408, 429, 500, 502, 503, 504})
      \<or> (\<exists>msg tok pre post. e = OtherError msg
          \<and> tok \<in> {''network'', ''timeout'', ''econnreset'', ''econnrefused'', ''socket''}
          \<and> toLowerCase msg = pre @ tok @ post)"
  proof (cases e)
    case (DownloadError u c m)
    show ?thesis
      unfolding DownloadError isRetryableError_DownloadError_iff
      by (simp only: thrown.inject thrown.distinct simp_thms ex_simps) simp
  next
    case (OtherError m)
    show ?thesis
      unfolding OtherError isRetryableError_OtherError_iff
      by (simp only: thrown.inject thrown.distinct simp_thms ex_simps)
  next
    case NotAnError
    show ?thesis
      unfolding NotAnError
      by (simp only: isRetryableError.simps thrown.distinct simp_thms ex_simps)
  qed
  have r1: "\<not> isRetryableError NotAnError"
    by simp
  have r2: "\<not> isRetryableError (DownloadError url 0 msg)"
    by (simp add: RETRYABLE_STATUS_CODES_def)
  have r3: "400 \<le> s \<and> s \<le> 499 \<and> s \<noteq> 408 \<and> s \<noteq> 429
            \<longrightarrow> \<not> isRetryableError (DownloadError url s msg)"
    by (auto simp: RETRYABLE_STATUS_CODES_def)
  have r4: "200 \<le> s \<and> s \<le> 299
            \<longrightarrow> \<not> isRetryableError (DownloadError url s ''Empty response body'')"
    by (auto simp: RETRYABLE_STATUS_CODES_def)
  show ?thesis
    by (intro conjI) (rule exact r1 r2 r3 r4)+
qed

theorem C3_isRetryableError_exact_witness:
  "isRetryableError (DownloadError ''https://example.com/dl?mid=1'' 503 ''Service Unavailable'')
   \<and> isRetryableError (OtherError ''read ECONNRESET'')
   \<and> \<not> isRetryableError (DownloadError ''https://example.com/dl?mid=1'' 404 ''Not Found'')
   \<and> \<not> isRetryableError (DownloadError ''https://cdn.example.com/f'' 200 ''Empty response body'')
   \<and> \<not> isRetryableError (OtherError ''Unexpected token < in JSON'')"
proof -
  have low: "toLowerCase ''read ECONNRESET'' = ''read '' @ ''econnreset'' @ []"
    by (simp add: toLowerCase_def char_toLowerCase_def)
  note c3 = C3_isRetryableError_exact
  have a: "isRetryableError (DownloadError ''https://example.com/dl?mid=1'' 503 ''Service Unavailable'')"
    using c3 [where e = "DownloadError ''https://example.com/dl?mid=1'' 503 ''Service Unavailable''",
        THEN conjunct1]
    by simp
  have "\<exists>msg tok pre post. OtherError ''read ECONNRESET'' = OtherError msg
          \<and> tok \<in> {''network'', ''timeout'', ''econnreset'', ''econnrefused'', ''socket''}
          \<and> toLowerCase msg = pre @ tok @ post"
    by (intro exI [of _ "''read ECONNRESET''"] exI [of _ "''econnreset''"]
        exI [of _ "''read ''"] exI [of _ "[]"] conjI refl low) simp
  then have b: "isRetryableError (OtherError ''read ECONNRESET'')"
    using c3 [where e = "OtherError ''read ECONNRESET''", THEN conjunct1] by simp
  have c: "\<not> isRetryableError (DownloadError ''https://example.com/dl?mid=1'' 404 ''Not Found'')"
    using c3 [where s = 404 and url = "''https://example.com/dl?mid=1''" and msg = "''Not Found''",
        THEN conjunct2, THEN conjunct2, THEN conjunct2, THEN conjunct1]
    by simp
  have d: "\<not> isRetryableError (DownloadError ''https://cdn.example.com/f'' 200 ''Empty response body'')"
    using c3 [where s = 200 and url = "''https://cdn.example.com/f''",
        THEN conjunct2, THEN conjunct2, THEN conjunct2, THEN conjunct2]
    by simp
  have e: "\<not> isRetryableError (OtherError ''Unexpected token < in JSON'')"
    by (simp add: toLowerCase_def char_toLowerCase_def startsWith_def)
  show ?thesis
    by (intro conjI) (rule a b c d e)+
qed

section \<open>Properties of the fetcher\<close>

lemma catch_block_eq:
  "catch_block attempts_remain err
     = (if attempts_remain \<and> isRetryableError err then Continue err else Throw err)"
  by (cases err) (simp_all add: catch_block_def)

lemma run_attempt_flag:
  "run_attempt net mem url baseUrl queryString attempts_remain
     = (case run_attempt net mem url baseUrl queryString False of
          Throw err \<Rightarrow> if attempts_remain \<and> isRetryableError err then Continue err else Throw err
        | step \<Rightarrow> step)"
proof (cases attempts_remain)
  case False
  then show ?thesis
    by (cases "run_attempt net mem url baseUrl queryString False") simp_all
next
  case True
  show ?thesis
    unfolding True run_attempt_def catch_block_eq try_block_def Let_def
    by (simp split: sum.split option.split)
qed

lemma run_attempt_False_not_Continue:
  "run_attempt net mem url baseUrl queryString False \<noteq> Continue e"
  unfolding run_attempt_def catch_block_eq try_block_def Let_def
  by (simp split: sum.split option.split)

lemma run_attempt_Continue:
  assumes "run_attempt net mem url baseUrl queryString True = Continue e"
  shows "isRetryableError e \<and> run_attempt net mem url baseUrl queryString False = Throw e"
proof (cases "run_attempt net mem url baseUrl queryString False")
  case (Continue e')
  then show ?thesis by (simp add: run_attempt_False_not_Continue)
next
  case (Return d)
  with assms run_attempt_flag [of net mem url baseUrl queryString True]
  show ?thesis by simp
next
  case (Throw err)
  with assms run_attempt_flag [of net mem url baseUrl queryString True]
  show ?thesis by (simp split: if_splits)
qed

text \<open>
  The download path never hands on an empty buffer: a pass of the loop that returns media
  returns at least one byte (an empty body is thrown as \<^verbatim>\<open>Empty response body\<close>).
\<close>

lemma run_attempt_Return_nonempty:
  assumes "run_attempt net mem url baseUrl queryString attempts_remain = Return downloaded"
  shows "data downloaded \<noteq> []"
proof -
  have "try_block net mem url baseUrl queryString attempts_remain = Return downloaded"
    using assms
    by (cases "try_block net mem url baseUrl queryString attempts_remain")
       (simp_all add: run_attempt_def catch_block_eq split: if_splits)
  then show ?thesis
    unfolding try_block_def Let_def
    by (simp split: sum.splits option.splits if_splits) auto
qed

lemma attempt_loop_all_retryable:
  assumes fails: "\<forall>k. int k \<le> maxR \<longrightarrow>
        (\<exists>e. run_attempt (net k) mem url baseUrl queryString True = Continue e)"
    and le: "int attempt \<le> maxR"
  shows "attempts_made (attempt_loop net mem url baseUrl queryString maxR callback
            attempt lastError calls slept) = nat maxR + 1
       \<and> (\<exists>e. result (attempt_loop net mem url baseUrl queryString maxR callback
                   attempt lastError calls slept) = Inl e
              \<and> isRetryableError e
              \<and> run_attempt (net (nat maxR)) mem url baseUrl queryString True = Continue e)
       \<and> map fst (retry_calls (attempt_loop net mem url baseUrl queryString maxR callback
            attempt lastError calls slept))
           = map fst calls @ (if callback then [attempt + 1 ..< nat maxR + 1] else [])
       \<and> length (sleeps (attempt_loop net mem url baseUrl queryString maxR callback
            attempt lastError calls slept)) = length slept + (nat maxR - attempt)"
  using le
proof (induction "nat maxR - attempt" arbitrary: attempt lastError calls slept)
  case 0
  then have last: "int attempt = maxR" by simp
  then have n: "nat maxR = attempt" by simp
  from fails last obtain e
    where e: "run_attempt (net attempt) mem url baseUrl queryString True = Continue e"
    by (metis order_refl)
  from run_attempt_Continue [OF e]
  have r: "isRetryableError e"
    and t: "run_attempt (net attempt) mem url baseUrl queryString False = Throw e"
    by simp_all
  have "attempt_loop net mem url baseUrl queryString maxR callback
            attempt lastError calls slept
        = \<lparr>result = Inl e, attempts_made = attempt + 1, retry_calls = calls, sleeps = slept\<rparr>"
    using last t by (subst attempt_loop.simps) simp
  then show ?case using r e n by simp
next
  case (Suc d)
  then have lt: "int attempt < maxR" by linarith
  from fails lt obtain e
    where e: "run_attempt (net attempt) mem url baseUrl queryString True = Continue e"
    by (metis less_imp_le)
  define delay where
    "delay = calculateBackoffDelay (random (net attempt)) attempt BACKOFF_BASE_DELAY_MS"
  define calls' where
    "calls' = (if callback then calls @ [(attempt + 1, delay, e)] else calls)"
  have unfold: "attempt_loop net mem url baseUrl queryString maxR callback
            attempt lastError calls slept
        = attempt_loop net mem url baseUrl queryString maxR callback
            (attempt + 1) (Some e) calls' (slept @ [delay])"
    using lt e by (subst attempt_loop.simps) (simp add: Let_def delay_def calls'_def)
  have d: "d = nat maxR - (attempt + 1)" using Suc.hyps(2) by linarith
  have le': "int (attempt + 1) \<le> maxR" using lt by linarith
  note IH = Suc.hyps(1) [OF d le', of "Some e" calls' "slept @ [delay]"]
  have range: "attempt + 1 < nat maxR + 1" using lt by linarith
  have calls_fst: "map fst calls' @ (if callback then [attempt + 1 + 1 ..< nat maxR + 1] else [])
        = map fst calls @ (if callback then [attempt + 1 ..< nat maxR + 1] else [])"
    using range by (simp add: calls'_def upt_conv_Cons)
  have slept_len: "length (slept @ [delay]) + (nat maxR - (attempt + 1))
        = length slept + (nat maxR - attempt)"
    using lt by simp
  show ?case
    unfolding unfold using IH calls_fst slept_len by simp
qed

text \<open>
  Claim C1: let the download URL have a query string (without one \<open>downloadMemory\<close>
  throws before its first attempt), let \<open>maxRetries\<close> be \<open>N \<ge> 0\<close>, and let every attempt
  from 0 to \<open>N\<close> fail with a retryable error: taken on its own, with no retry left, the
  attempt throws an error that \<open>isRetryableError\<close> accepts. Then \<open>downloadMemory\<close> makes exactly
  \<open>N + 1\<close> attempts, calls the retry callback exactly \<open>N\<close> times, with the attempt numbers 1
  to \<open>N\<close>, sleeps \<open>N\<close> times, and ends by throwing the retryable error of the last attempt;
  it does not return media.
\<close>

theorem C1_retry_ceiling:
  assumes "0 \<le> N"
    and "split_on CHR ''?'' (downloadUrl mem) = baseUrl # queryString # rest"
    and "queryString \<noteq> []"
    and "\<forall>k. int k \<le> N \<longrightarrow>
           (\<exists>e. run_attempt (net k) mem (downloadUrl mem) baseUrl queryString False = Throw e
                \<and> isRetryableError e)"
  shows "attempts_made (downloadMemory net mem \<lparr>maxRetries = Some N, onRetry = True\<rparr>)
           = nat N + 1
       \<and> length (retry_calls (downloadMemory net mem \<lparr>maxRetries = Some N, onRetry = True\<rparr>))
           = nat N
       \<and> map fst (retry_calls (downloadMemory net mem \<lparr>maxRetries = Some N, onRetry = True\<rparr>))
           = [1 ..< nat N + 1]
       \<and> length (sleeps (downloadMemory net mem \<lparr>maxRetries = Some N, onRetry = True\<rparr>))
           = nat N
       \<and> (\<exists>e. result (downloadMemory net mem \<lparr>maxRetries = Some N, onRetry = True\<rparr>) = Inl e
              \<and> isRetryableError e
              \<and> run_attempt (net (nat N)) mem (downloadUrl mem) baseUrl queryString False
                  = Throw e)
       \<and> (\<forall>downloaded.
             result (downloadMemory net mem \<lparr>maxRetries = Some N, onRetry = True\<rparr>)
               \<noteq> Inr downloaded)"
proof -
  define out where
    "out = attempt_loop net mem (downloadUrl mem) baseUrl queryString N True 0 None [] []"
  have dm: "downloadMemory net mem \<lparr>maxRetries = Some N, onRetry = True\<rparr> = out"
    using assms(2,3) by (simp add: downloadMemory_def Let_def out_def)
  have cont: "\<forall>k. int k \<le> N \<longrightarrow>
      (\<exists>e. run_attempt (net k) mem (downloadUrl mem) baseUrl queryString True = Continue e)"
  proof (intro allI impI)
    fix k assume "int k \<le> N"
    with assms(4) obtain e
      where "run_attempt (net k) mem (downloadUrl mem) baseUrl queryString False = Throw e"
        and "isRetryableError e" by blast
    then have "run_attempt (net k) mem (downloadUrl mem) baseUrl queryString True
               = Continue e"
      by (subst run_attempt_flag) simp
    then show "\<exists>e. run_attempt (net k) mem (downloadUrl mem) baseUrl queryString True
                 = Continue e" ..
  qed
  have le: "int 0 \<le> N" using assms(1) by simp
  note loop = attempt_loop_all_retryable [OF cont le, of True None "[]" "[]", folded out_def]
  from loop have a: "attempts_made out = nat N + 1" by simp
  from loop have m: "map fst (retry_calls out) = [1 ..< nat N + 1]" by simp
  from m have l: "length (retry_calls out) = nat N"
    by (metis length_map length_upt add_diff_cancel_right')
  from loop have s: "length (sleeps out) = nat N" by simp
  from loop obtain e where e: "result out = Inl e" "isRetryableError e"
    "run_attempt (net (nat N)) mem (downloadUrl mem) baseUrl queryString True = Continue e"
    by blast
  from run_attempt_Continue [OF e(3)]
  have t: "run_attempt (net (nat N)) mem (downloadUrl mem) baseUrl queryString False
           = Throw e" by simp
  have r: "\<exists>e. result out = Inl e \<and> isRetryableError e
      \<and> run_attempt (net (nat N)) mem (downloadUrl mem) baseUrl queryString False = Throw e"
    using e(1,2) t by blast
  have n: "\<forall>downloaded. result out \<noteq> Inr downloaded" using e(1) by simp
  show ?thesis
    unfolding dm using a l m s r n by blast
qed

theorem C1_retry_ceiling_witness:
  "attempts_made (downloadMemory
      (\<lambda>k. \<lparr>proxy_fetch = (\<lambda>b q. Inr \<lparr>status = 503, statusText = ''Service Unavailable'',
                                        header_content_type = None, body = Inr []\<rparr>),
             file_fetch = (\<lambda>u. Inl (OtherError ''fetch failed'')), random = 1 / 2\<rparr>)
      \<lparr>date = 1700000000000, mediaType = Image, location = None,
       downloadUrl = ''https://app.snapchat.com/dmd/memories?uid=1&mid=abc'',
       mediaDownloadUrl = None, mediaId = ''abc''\<rparr>
      \<lparr>maxRetries = Some 3, onRetry = True\<rparr>) = 4
   \<and> map fst (retry_calls (downloadMemory
      (\<lambda>k. \<lparr>proxy_fetch = (\<lambda>b q. Inr \<lparr>status = 503, statusText = ''Service Unavailable'',
                                        header_content_type = None, body = Inr []\<rparr>),
             file_fetch = (\<lambda>u. Inl (OtherError ''fetch failed'')), random = 1 / 2\<rparr>)
      \<lparr>date = 1700000000000, mediaType = Image, location = None,
       downloadUrl = ''https://app.snapchat.com/dmd/memories?uid=1&mid=abc'',
       mediaDownloadUrl = None, mediaId = ''abc''\<rparr>
      \<lparr>maxRetries = Some 3, onRetry = True\<rparr>)) = [1, 2, 3]
   \<and> result (downloadMemory
      (\<lambda>k. \<lparr>proxy_fetch = (\<lambda>b q. Inr \<lparr>status = 503, statusText = ''Service Unavailable'',
                                        header_content_type = None, body = Inr []\<rparr>),
             file_fetch = (\<lambda>u. Inl (OtherError ''fetch failed'')), random = 1 / 2\<rparr>)
      \<lparr>date = 1700000000000, mediaType = Image, location = None,
       downloadUrl = ''https://app.snapchat.com/dmd/memories?uid=1&mid=abc'',
       mediaDownloadUrl = None, mediaId = ''abc''\<rparr>
      \<lparr>maxRetries = Some 3, onRetry = True\<rparr>)
     = Inl (DownloadError ''https://app.snapchat.com/dmd/memories?uid=1&mid=abc'' 503
              ''Service Unavailable'')"
proof -
  define net :: "nat \<Rightarrow> attempt_net" where
    "net = (\<lambda>k. \<lparr>proxy_fetch = (\<lambda>b q. Inr \<lparr>status = 503, statusText = ''Service Unavailable'',
                                        header_content_type = None, body = Inr []\<rparr>),
             file_fetch = (\<lambda>u. Inl (OtherError ''fetch failed'')), random = 1 / 2\<rparr>)"
  define mem where
    "mem = \<lparr>date = 1700000000000, mediaType = Image, location = None,
       downloadUrl = ''https://app.snapchat.com/dmd/memories?uid=1&mid=abc'',
       mediaDownloadUrl = None, mediaId = ''abc''\<rparr>"
  define err where
    "err = DownloadError ''https://app.snapchat.com/dmd/memories?uid=1&mid=abc'' 503
              ''Service Unavailable''"
  have url: "downloadUrl mem = ''https://app.snapchat.com/dmd/memories?uid=1&mid=abc''"
    by (simp add: mem_def)
  have sp: "split_on CHR ''?'' (downloadUrl mem)
            = ''https://app.snapchat.com/dmd/memories'' # ''uid=1&mid=abc'' # []"
    by (simp add: url split_on_def)
  have q: "''uid=1&mid=abc'' \<noteq> []" by simp
  have retry: "isRetryableError err"
    by (simp add: err_def RETRYABLE_STATUS_CODES_def)
  have att: "\<And>k. run_attempt (net k) mem (downloadUrl mem)
               ''https://app.snapchat.com/dmd/memories'' ''uid=1&mid=abc'' False = Throw err"
    unfolding url
    by (simp add: run_attempt_def try_block_def catch_block_eq ok_def net_def err_def Let_def)
  have hyp: "\<forall>k. int k \<le> 3 \<longrightarrow>
           (\<exists>e. run_attempt (net k) mem (downloadUrl mem)
                   ''https://app.snapchat.com/dmd/memories'' ''uid=1&mid=abc'' False = Throw e
                \<and> isRetryableError e)"
    by (intro allI impI exI [of _ err] conjI att retry)
  have three: "(0 :: int) \<le> 3" by simp
  note c1 = C1_retry_ceiling [OF three sp q hyp]
  have "attempts_made (downloadMemory net mem \<lparr>maxRetries = Some 3, onRetry = True\<rparr>)
          = nat 3 + 1"
    by (rule c1 [THEN conjunct1])
  then have a: "attempts_made (downloadMemory net mem \<lparr>maxRetries = Some 3, onRetry = True\<rparr>) = 4"
    by simp
  have "map fst (retry_calls (downloadMemory net mem \<lparr>maxRetries = Some 3, onRetry = True\<rparr>))
                = [1 ..< nat 3 + 1]"
    by (rule c1 [THEN conjunct2, THEN conjunct2, THEN conjunct1])
  then have m: "map fst (retry_calls (downloadMemory net mem \<lparr>maxRetries = Some 3, onRetry = True\<rparr>))
                = [1, 2, 3]"
    by (simp add: upt_conv_Cons)
  from c1 [THEN conjunct2, THEN conjunct2, THEN conjunct2, THEN conjunct2, THEN conjunct1]
  obtain e where e: "result (downloadMemory net mem \<lparr>maxRetries = Some 3, onRetry = True\<rparr>)
                = Inl e"
    and t: "run_attempt (net (nat 3)) mem (downloadUrl mem)
               ''https://app.snapchat.com/dmd/memories'' ''uid=1&mid=abc'' False = Throw e"
    by (elim exE conjE)
  from t have "e = err" unfolding att by (simp only: attempt_step.inject)
  with e have r: "result (downloadMemory net mem \<lparr>maxRetries = Some 3, onRetry = True\<rparr>)
                = Inl err"
    by (simp only:)
  show ?thesis
    using a m r unfolding net_def mem_def err_def
    by (intro conjI) assumption+
qed

section \<open>Properties of the expiry detector\<close>





section \<open>Properties of the orchestrator\<close>




















section \<open>Properties of the bundle extractor\<close>

lemma first_pass_entry_unusable:
  "\<not> usable_media_entry entry \<Longrightarrow> first_pass_entry entry vars = vars"
  by (auto simp: first_pass_entry_def Let_def)

lemma first_pass_unusable:
  "\<forall>entry \<in> set zentries. \<not> usable_media_entry entry \<Longrightarrow> first_pass zentries vars = vars"
proof (induction zentries arbitrary: vars)
  case Nil
  then show ?case by simp
next
  case (Cons entry zentries)
  then have "first_pass_entry entry vars = vars"
    by (intro first_pass_entry_unusable) simp
  with Cons show ?case by simp
qed

lemma second_pass_unusable:
  "\<forall>entry \<in> set zentries. \<not> usable_media_entry entry \<Longrightarrow> second_pass zentries vars = vars"
  by (induction zentries) (auto simp: Let_def)

lemma second_pass_finds:
  "\<exists>entry \<in> set zentries. usable_media_entry entry
   \<Longrightarrow> var_baseMedia (second_pass zentries vars) \<noteq> None"
  by (induction zentries) (auto simp: Let_def)

lemma first_pass_entry_base:
  "var_baseMedia (first_pass_entry entry vars) = Some b
   \<Longrightarrow> var_baseMedia vars = Some b \<or> (usable_media_entry entry \<and> getData entry = b)"
  by (auto simp: first_pass_entry_def Let_def split: if_splits)

lemma first_pass_base:
  "var_baseMedia (first_pass zentries vars) = Some b
   \<Longrightarrow> var_baseMedia vars = Some b
       \<or> (\<exists>entry \<in> set zentries. usable_media_entry entry \<and> getData entry = b)"
proof (induction zentries arbitrary: vars)
  case Nil
  then show ?case by simp
next
  case (Cons entry zentries)
  from Cons.prems have "var_baseMedia (first_pass zentries (first_pass_entry entry vars)) = Some b"
    by simp
  from Cons.IH [OF this] show ?case
  proof
    assume "var_baseMedia (first_pass_entry entry vars) = Some b"
    from first_pass_entry_base [OF this] show ?thesis by auto
  next
    assume "\<exists>entry \<in> set zentries. usable_media_entry entry \<and> getData entry = b"
    then show ?thesis by auto
  qed
qed

lemma second_pass_base:
  "var_baseMedia (second_pass zentries vars) = Some b
   \<Longrightarrow> var_baseMedia vars = Some b
       \<or> (\<exists>entry \<in> set zentries. usable_media_entry entry \<and> getData entry = b)"
  by (induction zentries) (auto simp: Let_def split: if_splits)

lemma locate_media_base:
  assumes "var_baseMedia (locate_media zentries mType) = Some b"
  shows "\<exists>entry \<in> set zentries. usable_media_entry entry \<and> getData entry = b"
proof -
  define init where "init = \<lparr>var_baseMedia = None,
      var_baseMediaType = (if mType = Image then jpg else mp4), var_overlay = None\<rparr>"
  define v1 where "v1 = first_pass zentries init"
  have init_none: "var_baseMedia init = None" by (simp add: init_def)
  have lm: "locate_media zentries mType
            = (if var_baseMedia v1 = None then second_pass zentries v1 else v1)"
    by (simp only: locate_media_def Let_def init_def v1_def)
  show ?thesis
  proof (cases "var_baseMedia v1 = None")
    case True
    have "locate_media zentries mType = second_pass zentries v1"
      unfolding lm by (rule if_P [OF True])
    then have "var_baseMedia (second_pass zentries v1) = Some b"
      using assms by simp
    from second_pass_base [OF this] True show ?thesis by simp
  next
    case False
    have "locate_media zentries mType = v1"
      unfolding lm by (rule if_not_P [OF False])
    then have "var_baseMedia v1 = Some b"
      using assms by simp
    then have "var_baseMedia (first_pass zentries init) = Some b"
      by (simp only: v1_def)
    from first_pass_base [OF this] init_none show ?thesis by simp
  qed
qed

lemma locate_media_none_iff:
  "var_baseMedia (locate_media zentries mType) = None
   \<longleftrightarrow> (\<forall>entry \<in> set zentries. \<not> usable_media_entry entry)"
proof
  assume none: "\<forall>entry \<in> set zentries. \<not> usable_media_entry entry"
  show "var_baseMedia (locate_media zentries mType) = None"
    by (simp add: locate_media_def Let_def
        first_pass_unusable [OF none] second_pass_unusable [OF none])
next
  assume fails: "var_baseMedia (locate_media zentries mType) = None"
  show "\<forall>entry \<in> set zentries. \<not> usable_media_entry entry"
  proof (rule ccontr)
    assume "\<not> (\<forall>entry \<in> set zentries. \<not> usable_media_entry entry)"
    then have ex: "\<exists>entry \<in> set zentries. usable_media_entry entry" by blast
    define v1 where "v1 = first_pass zentries \<lparr>var_baseMedia = None,
      var_baseMediaType = (if mType = Image then jpg else mp4), var_overlay = None\<rparr>"
    have lm: "locate_media zentries mType
              = (if var_baseMedia v1 = None then second_pass zentries v1 else v1)"
      by (simp only: locate_media_def Let_def v1_def)
    have "var_baseMedia (second_pass zentries v1) \<noteq> None"
      by (rule second_pass_finds [OF ex])
    then have "var_baseMedia (locate_media zentries mType) \<noteq> None"
      unfolding lm by (cases "var_baseMedia v1 = None") simp_all
    with fails show False by simp
  qed
qed

lemma extractMediaFromZip_fails_iff:
  assumes "AdmZip zipBuffer = Inr zentries"
  shows "extractMediaFromZip AdmZip zipBuffer mType
           = Inl (DownloadError ''zip'' 0 ''No media file found in ZIP archive'')
         \<longleftrightarrow> (\<forall>entry \<in> set zentries. \<not> usable_media_entry entry)"
  unfolding locate_media_none_iff [of zentries mType, symmetric]
  by (simp add: extractMediaFromZip_def assms Let_def split: option.splits)

lemma extractMediaFromZip_base:
  assumes "AdmZip zipBuffer = Inr zentries"
    and "extractMediaFromZip AdmZip zipBuffer mType = Inr r"
  shows "\<exists>entry \<in> set zentries. usable_media_entry entry \<and> getData entry = baseMedia r"
proof -
  from assms have "var_baseMedia (locate_media zentries mType) = Some (baseMedia r)"
    by (auto simp: extractMediaFromZip_def Let_def split: option.splits)
  then show ?thesis by (rule locate_media_base)
qed

lemmas string_method_defs =
  toLowerCase_def char_toLowerCase_def endsWith_def startsWith_def

text \<open>
  Claim C5: extraction is a function of the archive's entry list: two buffers in which
  the library reads the same entries give the same result. For the entries
  \<^verbatim>\<open>overlay.png\<close>, \<^verbatim>\<open>main.jpg\<close> it returns the data of \<^verbatim>\<open>main.jpg\<close> as a still image (jpg)
  with the data of \<^verbatim>\<open>overlay.png\<close> as overlay; for the single entry \<^verbatim>\<open>clip.mp4\<close> it
  returns that entry's data as a clip (mp4) with no overlay. Both hold for either media
  type of the memory.
\<close>

theorem C5_extract_deterministic_examples:
  "(AdmZip zipBuffer = AdmZip zipBuffer'
      \<longrightarrow> extractMediaFromZip AdmZip zipBuffer mType
          = extractMediaFromZip AdmZip zipBuffer' mType)
   \<and> (AdmZip zipBuffer =
        Inr [\<lparr>entryName = ''overlay.png'', isDirectory = False, getData = ov\<rparr>,
             \<lparr>entryName = ''main.jpg'', isDirectory = False, getData = base\<rparr>]
      \<longrightarrow> extractMediaFromZip AdmZip zipBuffer mType
          = Inr \<lparr>baseMedia = base, baseMediaType = jpg, overlay = Some ov\<rparr>)
   \<and> (AdmZip zipBuffer =
        Inr [\<lparr>entryName = ''clip.mp4'', isDirectory = False, getData = clip\<rparr>]
      \<longrightarrow> extractMediaFromZip AdmZip zipBuffer mType
          = Inr \<lparr>baseMedia = clip, baseMediaType = mp4, overlay = None\<rparr>)"
proof (intro conjI impI)
  assume "AdmZip zipBuffer = AdmZip zipBuffer'"
  then show "extractMediaFromZip AdmZip zipBuffer mType
          = extractMediaFromZip AdmZip zipBuffer' mType"
    by (simp add: extractMediaFromZip_def)
next
  assume "AdmZip zipBuffer =
        Inr [\<lparr>entryName = ''overlay.png'', isDirectory = False, getData = ov\<rparr>,
             \<lparr>entryName = ''main.jpg'', isDirectory = False, getData = base\<rparr>]"
  then show "extractMediaFromZip AdmZip zipBuffer mType
          = Inr \<lparr>baseMedia = base, baseMediaType = jpg, overlay = Some ov\<rparr>"
    by (simp add: extractMediaFromZip_def locate_media_def first_pass_entry_def Let_def
        string_method_defs)
next
  assume "AdmZip zipBuffer =
        Inr [\<lparr>entryName = ''clip.mp4'', isDirectory = False, getData = clip\<rparr>]"
  then show "extractMediaFromZip AdmZip zipBuffer mType
          = Inr \<lparr>baseMedia = clip, baseMediaType = mp4, overlay = None\<rparr>"
    by (simp add: extractMediaFromZip_def locate_media_def first_pass_entry_def Let_def
        string_method_defs)
qed

theorem C5_extract_deterministic_examples_witness:
  "extractMediaFromZip
      (\<lambda>b. Inr [\<lparr>entryName = ''overlay.png'', isDirectory = False, getData = [0x89, 0x50]\<rparr>,
                \<lparr>entryName = ''main.jpg'', isDirectory = False, getData = [0xFF, 0xD8]\<rparr>])
      [0x50, 0x4B, 3, 4] Image
     = Inr \<lparr>baseMedia = [0xFF, 0xD8], baseMediaType = jpg, overlay = Some [0x89, 0x50]\<rparr>
   \<and> extractMediaFromZip
      (\<lambda>b. Inr [\<lparr>entryName = ''clip.mp4'', isDirectory = False, getData = [0, 0, 0, 0x18]\<rparr>])
      [0x50, 0x4B, 3, 4] Video
     = Inr \<lparr>baseMedia = [0, 0, 0, 0x18], baseMediaType = mp4, overlay = None\<rparr>"
proof -
  have a: "extractMediaFromZip
      (\<lambda>b. Inr [\<lparr>entryName = ''overlay.png'', isDirectory = False, getData = [0x89, 0x50]\<rparr>,
                \<lparr>entryName = ''main.jpg'', isDirectory = False, getData = [0xFF, 0xD8]\<rparr>])
      [0x50, 0x4B, 3, 4] Image
     = Inr \<lparr>baseMedia = [0xFF, 0xD8], baseMediaType = jpg, overlay = Some [0x89, 0x50]\<rparr>"
    using C5_extract_deterministic_examples
      [where AdmZip = "\<lambda>b. Inr [\<lparr>entryName = ''overlay.png'', isDirectory = False,
                                  getData = [0x89, 0x50]\<rparr>,
                                \<lparr>entryName = ''main.jpg'', isDirectory = False,
                                  getData = [0xFF, 0xD8]\<rparr>]"
         and zipBuffer = "[0x50, 0x4B, 3, 4]" and mType = Image
         and ov = "[0x89, 0x50]" and base = "[0xFF, 0xD8]"]
    by simp
  have b: "extractMediaFromZip
      (\<lambda>b. Inr [\<lparr>entryName = ''clip.mp4'', isDirectory = False, getData = [0, 0, 0, 0x18]\<rparr>])
      [0x50, 0x4B, 3, 4] Video
     = Inr \<lparr>baseMedia = [0, 0, 0, 0x18], baseMediaType = mp4, overlay = None\<rparr>"
    using C5_extract_deterministic_examples
      [where AdmZip = "\<lambda>b. Inr [\<lparr>entryName = ''clip.mp4'', isDirectory = False,
                                  getData = [0, 0, 0, 0x18]\<rparr>]"
         and zipBuffer = "[0x50, 0x4B, 3, 4]" and mType = Video
         and clip = "[0, 0, 0, 0x18]"]
    by simp
  from a b show ?thesis by (rule conjI)
qed

text \<open>
  Claim C6: when the archive holds no file whose name ends in one of the extensions
  that the two loops accept (.jpg, .jpeg, .png, .mp4, .mov), and only then, neither loop
  finds base media and extraction fails with the download error for
  \<^verbatim>\<open>zip\<close>, status 0, \<^verbatim>\<open>No media file found in ZIP archive\<close>; the failure is the whole
  outcome, no contents are returned. The empty archive is such a container.
\<close>

theorem C6_extract_no_media_fails:
  "(AdmZip zipBuffer = Inr []
      \<longrightarrow> extractMediaFromZip AdmZip zipBuffer mType
          = Inl (DownloadError ''zip'' 0 ''No media file found in ZIP archive''))
   \<and> (AdmZip zipBuffer = Inr zentries
      \<longrightarrow> (var_baseMedia (locate_media zentries mType) = None
            \<longleftrightarrow> (\<forall>entry \<in> set zentries. \<not> usable_media_entry entry))
        \<and> (extractMediaFromZip AdmZip zipBuffer mType
             = Inl (DownloadError ''zip'' 0 ''No media file found in ZIP archive'')
            \<longleftrightarrow> (\<forall>entry \<in> set zentries. \<not> usable_media_entry entry))
        \<and> ((\<forall>entry \<in> set zentries. \<not> usable_media_entry entry)
            \<longrightarrow> (\<forall>r. extractMediaFromZip AdmZip zipBuffer mType \<noteq> Inr r)))
   \<and> error_message (DownloadError ''zip'' 0 ''No media file found in ZIP archive'')
       = Some ''Failed to download zip: No media file found in ZIP archive (status: 0)''"
proof (intro conjI impI)
  assume "AdmZip zipBuffer = Inr []"
  then show "extractMediaFromZip AdmZip zipBuffer mType
          = Inl (DownloadError ''zip'' 0 ''No media file found in ZIP archive'')"
    by (simp add: extractMediaFromZip_fails_iff [of AdmZip zipBuffer "[]"])
next
  show "var_baseMedia (locate_media zentries mType) = None
            \<longleftrightarrow> (\<forall>entry \<in> set zentries. \<not> usable_media_entry entry)"
    by (rule locate_media_none_iff)
next
  assume "AdmZip zipBuffer = Inr zentries"
  then show "extractMediaFromZip AdmZip zipBuffer mType
             = Inl (DownloadError ''zip'' 0 ''No media file found in ZIP archive'')
            \<longleftrightarrow> (\<forall>entry \<in> set zentries. \<not> usable_media_entry entry)"
    by (rule extractMediaFromZip_fails_iff)
next
  assume e: "AdmZip zipBuffer = Inr zentries"
    and none: "\<forall>entry \<in> set zentries. \<not> usable_media_entry entry"
  have "extractMediaFromZip AdmZip zipBuffer mType
          = Inl (DownloadError ''zip'' 0 ''No media file found in ZIP archive'')"
    using none by (simp add: extractMediaFromZip_fails_iff [of AdmZip zipBuffer zentries] e)
  then show "\<forall>r. extractMediaFromZip AdmZip zipBuffer mType \<noteq> Inr r"
    by simp
next
  show "error_message (DownloadError ''zip'' 0 ''No media file found in ZIP archive'')
       = Some ''Failed to download zip: No media file found in ZIP archive (status: 0)''"
    by (simp add: string_of_int_def string_of_nat.simps digit_char_def)
qed

theorem C6_extract_no_media_fails_witness:
  "extractMediaFromZip (\<lambda>b. Inr []) [0x50, 0x4B, 5, 6] Image
     = Inl (DownloadError ''zip'' 0 ''No media file found in ZIP archive'')
   \<and> extractMediaFromZip
       (\<lambda>b. Inr [\<lparr>entryName = ''memories/'', isDirectory = True, getData = []\<rparr>,
                 \<lparr>entryName = ''memories/README.txt'', isDirectory = False, getData = [0x68, 0x69]\<rparr>])
       [0x50, 0x4B, 3, 4] Video
     = Inl (DownloadError ''zip'' 0 ''No media file found in ZIP archive'')"
proof -
  have a: "extractMediaFromZip (\<lambda>b. Inr []) [0x50, 0x4B, 5, 6] Image
     = Inl (DownloadError ''zip'' 0 ''No media file found in ZIP archive'')"
    using C6_extract_no_media_fails
      [where AdmZip = "\<lambda>b. Inr []" and zipBuffer = "[0x50, 0x4B, 5, 6]" and mType = Image]
    by simp
  have b: "extractMediaFromZip
       (\<lambda>b. Inr [\<lparr>entryName = ''memories/'', isDirectory = True, getData = []\<rparr>,
                 \<lparr>entryName = ''memories/README.txt'', isDirectory = False, getData = [0x68, 0x69]\<rparr>])
       [0x50, 0x4B, 3, 4] Video
     = Inl (DownloadError ''zip'' 0 ''No media file found in ZIP archive'')"
    using C6_extract_no_media_fails
      [where AdmZip = "\<lambda>b. Inr [\<lparr>entryName = ''memories/'', isDirectory = True, getData = []\<rparr>,
                 \<lparr>entryName = ''memories/README.txt'', isDirectory = False,
                   getData = [0x68, 0x69]\<rparr>]"
         and zipBuffer = "[0x50, 0x4B, 3, 4]" and mType = Video
         and zentries = "[\<lparr>entryName = ''memories/'', isDirectory = True, getData = []\<rparr>,
                 \<lparr>entryName = ''memories/README.txt'', isDirectory = False,
                   getData = [0x68, 0x69]\<rparr>]"]
    by (simp add: string_method_defs)
  from a b show ?thesis by (rule conjI)
qed

text \<open>
  Claim C7 at an archive whose \<^verbatim>\<open>main.jpg\<close> is a file of length zero: the extractor tests
  whether a base entry was found (the variable is no longer \<^verbatim>\<open>null\<close>), not whether its data
  has any byte, so the extraction succeeds and the base-media buffer it returns is empty.
\<close>

theorem C7_empty_base_entry_extracted:
  "extractMediaFromZip
      (\<lambda>b. Inr [\<lparr>entryName = ''main.jpg'', isDirectory = False, getData = []\<rparr>])
      [0x50, 0x4B, 3, 4] Image
     = Inr \<lparr>baseMedia = [], baseMediaType = jpg, overlay = None\<rparr>"
  by (simp add: extractMediaFromZip_def locate_media_def first_pass_entry_def Let_def
      string_method_defs)

section \<open>Properties of the manifest store\<close>

lemma filterPendingMemories_filter:
  "filterPendingMemories memories manifest
     = filter (\<lambda>mem. mediaId mem \<notin> fst ` set (own_properties (entries manifest))) memories"
  by (simp add: filterPendingMemories_def getDownloadedIds_def Object_keys_set_def)

lemma filterPendingMemories_idempotent:
  "filterPendingMemories (filterPendingMemories memories manifest) manifest
     = filterPendingMemories memories manifest"
  by (simp add: filterPendingMemories_filter)

lemma Object_keys_set_object_set:
  "key \<noteq> ''__proto__'' \<or> key \<in> Object_keys_set obj
   \<Longrightarrow> Object_keys_set (object_set obj key v) = insert key (Object_keys_set obj)"
proof -
  assume a: "key \<noteq> ''__proto__'' \<or> key \<in> Object_keys_set obj"
  have "map_of (own_properties obj) key = None \<longleftrightarrow> key \<notin> Object_keys_set obj"
    by (simp add: Object_keys_set_def map_of_eq_None_iff)
  with a have "object_set obj key v
               = obj\<lparr>own_properties := AList.update key v (own_properties obj)\<rparr>"
    by (auto simp: object_set_def)
  then show ?thesis
    by (simp add: Object_keys_set_def AList.dom_update)
qed

lemma filterPendingMemories_after_add:
  assumes "mediaId x \<noteq> ''__proto__'' \<or> mediaId x \<in> getDownloadedIds manifest"
  shows "filterPendingMemories memories
           (snd (addManifestEntry nowISO toISOString manifest x path bytes))
         = filter (\<lambda>mem. mediaId mem \<noteq> mediaId x)
             (filterPendingMemories memories manifest)"
proof -
  have "getDownloadedIds (snd (addManifestEntry nowISO toISOString manifest x path bytes))
        = insert (mediaId x) (getDownloadedIds manifest)"
    using assms
    by (simp add: getDownloadedIds_def addManifestEntry_def Let_def Object_keys_set_object_set)
  then show ?thesis
    by (simp add: filterPendingMemories_def Let_def conj_commute)
qed

text \<open>
  Claim C8 at the identity \<^verbatim>\<open>__proto__\<close>: recording the completion of a memory with this
  identity in a fresh manifest creates no entry, so the memory is still pending
  afterwards, and its identity is not among the downloaded ones.
\<close>

theorem C8_proto_identity_stays_pending:
  "filterPendingMemories
      [\<lparr>date = 1700000000000, mediaType = Image, location = None,
        downloadUrl = ''https://app.snapchat.com/dmd/memories?mid=__proto__'',
        mediaDownloadUrl = None, mediaId = ''__proto__''\<rparr>]
      (snd (addManifestEntry ''2024-01-15T10:30:00.000Z'' (\<lambda>d. ''2023-11-14T22:13:20.000Z'')
              (createManifest ''2024-01-15T10:00:00.000Z'' ''out'')
              \<lparr>date = 1700000000000, mediaType = Image, location = None,
               downloadUrl = ''https://app.snapchat.com/dmd/memories?mid=__proto__'',
               mediaDownloadUrl = None, mediaId = ''__proto__''\<rparr>
              ''out/2023-11-14_221320.jpg'' 12345))
     = [\<lparr>date = 1700000000000, mediaType = Image, location = None,
         downloadUrl = ''https://app.snapchat.com/dmd/memories?mid=__proto__'',
         mediaDownloadUrl = None, mediaId = ''__proto__''\<rparr>]
   \<and> getDownloadedIds
      (snd (addManifestEntry ''2024-01-15T10:30:00.000Z'' (\<lambda>d. ''2023-11-14T22:13:20.000Z'')
              (createManifest ''2024-01-15T10:00:00.000Z'' ''out'')
              \<lparr>date = 1700000000000, mediaType = Image, location = None,
               downloadUrl = ''https://app.snapchat.com/dmd/memories?mid=__proto__'',
               mediaDownloadUrl = None, mediaId = ''__proto__''\<rparr>
              ''out/2023-11-14_221320.jpg'' 12345)) = {}"
  by (simp add: filterPendingMemories_def getDownloadedIds_def Object_keys_set_def
      addManifestEntry_def createManifest_def empty_object_def object_set_def Let_def)



end
